theory Spec2Isabelle
  imports Complex_Main
begin

section \<open>NumPy float values\<close>

text \<open>
  The arrays of the notebook hold NumPy \<^verbatim>\<open>float64\<close> values. A finite value is modelled by
  the real number it stands for, with exact arithmetic (rounding is not modelled); the three
  kinds of special value that NumPy produces instead of raising (\<^verbatim>\<open>inf\<close>, \<^verbatim>\<open>-inf\<close>,
  \<^verbatim>\<open>nan\<close>) are constructors of their own, so that a division by zero is a value of the
  model and not HOL's \<open>x / 0 = 0\<close>. Zero is unsigned and divides like \<^verbatim>\<open>+0.0\<close>.
\<close>

datatype npfloat = Fin real | PInf | MInf | NaN

fun is_fin :: "npfloat \<Rightarrow> bool" where
  "is_fin (Fin a) = True"
| "is_fin PInf = False"
| "is_fin MInf = False"
| "is_fin NaN = False"

fun rv :: "npfloat \<Rightarrow> real" where
  "rv (Fin a) = a"
| "rv PInf = 0"
| "rv MInf = 0"
| "rv NaN = 0"

fun fadd :: "npfloat \<Rightarrow> npfloat \<Rightarrow> npfloat" where
  "fadd (Fin a) (Fin b) = Fin (a + b)"
| "fadd NaN y = NaN"
| "fadd x NaN = NaN"
| "fadd PInf MInf = NaN"
| "fadd MInf PInf = NaN"
| "fadd PInf y = PInf"
| "fadd x PInf = PInf"
| "fadd MInf y = MInf"
| "fadd x MInf = MInf"

fun fmul :: "npfloat \<Rightarrow> npfloat \<Rightarrow> npfloat" where
  "fmul (Fin a) (Fin b) = Fin (a * b)"
| "fmul NaN y = NaN"
| "fmul x NaN = NaN"
| "fmul PInf (Fin b) = (if 0 < b then PInf else if b < 0 then MInf else NaN)"
| "fmul MInf (Fin b) = (if 0 < b then MInf else if b < 0 then PInf else NaN)"
| "fmul (Fin a) PInf = (if 0 < a then PInf else if a < 0 then MInf else NaN)"
| "fmul (Fin a) MInf = (if 0 < a then MInf else if a < 0 then PInf else NaN)"
| "fmul PInf PInf = PInf"
| "fmul PInf MInf = MInf"
| "fmul MInf PInf = MInf"
| "fmul MInf MInf = PInf"

fun fdiv :: "npfloat \<Rightarrow> npfloat \<Rightarrow> npfloat" where
  "fdiv (Fin a) (Fin b) =
     (if b \<noteq> 0 then Fin (a / b)
      else if 0 < a then PInf else if a < 0 then MInf else NaN)"
| "fdiv NaN y = NaN"
| "fdiv x NaN = NaN"
| "fdiv (Fin a) PInf = Fin 0"
| "fdiv (Fin a) MInf = Fin 0"
| "fdiv PInf (Fin b) = (if 0 \<le> b then PInf else MInf)"
| "fdiv MInf (Fin b) = (if 0 \<le> b then MInf else PInf)"
| "fdiv PInf PInf = NaN"
| "fdiv PInf MInf = NaN"
| "fdiv MInf PInf = NaN"
| "fdiv MInf MInf = NaN"

text \<open>\<^verbatim>\<open>np.log\<close>: \<^verbatim>\<open>log(0) = -inf\<close> (with a RuntimeWarning, as the notebook's output shows),
  \<^verbatim>\<open>nan\<close> on a negative argument.\<close>

fun np_log :: "npfloat \<Rightarrow> npfloat" where
  "np_log (Fin a) = (if 0 < a then Fin (ln a) else if a = 0 then MInf else NaN)"
| "np_log PInf = PInf"
| "np_log MInf = NaN"
| "np_log NaN = NaN"

text \<open>\<^verbatim>\<open>x.sum()\<close> of a one-dimensional array; the sum of no element is \<^verbatim>\<open>0.0\<close>.\<close>

definition fsum :: "npfloat list \<Rightarrow> npfloat" where
  "fsum xs = foldr fadd xs (Fin 0)"

type_synonym vec = "npfloat list"
type_synonym mat = "npfloat list list"
type_synonym ten = "npfloat list list list"

text \<open>\<^verbatim>\<open>x.sum(axis=0)\<close> of an array of shape \<open>(k, n)\<close> and of shape \<open>(k, n, m)\<close>: the slices
  along the first axis are added elementwise, starting from zeros of the slice's shape (what
  NumPy returns when \<open>k = 0\<close>).\<close>

definition vsum :: "nat \<Rightarrow> vec list \<Rightarrow> vec" where
  "vsum n xs = foldr (map2 fadd) xs (replicate n (Fin 0))"

definition msum :: "nat \<Rightarrow> nat \<Rightarrow> mat list \<Rightarrow> mat" where
  "msum n m xs = foldr (map2 (map2 fadd)) xs (replicate n (replicate m (Fin 0)))"

section \<open>The model object\<close>

text \<open>
  The attributes of an \<^verbatim>\<open>hmmCHAR\<close> object that \<^verbatim>\<open>learn\<close> and \<^verbatim>\<open>generate\<close> read or assign.
  \<open>Obs\<close> is the attribute \<^verbatim>\<open>O\<close> (the loaded symbol sequence).
\<close>

record hmm =
  A :: mat
  B :: mat
  Pi :: vec
  Obs :: "int list"
  Z :: mat
  alpha :: mat
  beta :: mat
  pobs :: npfloat
  gamma :: mat
  xi :: ten
  psi :: ten

datatype py_error = IndexError | ValueError

definition N_of :: "hmm \<Rightarrow> nat" where
  "N_of s = length (Pi s)"

definition M_of :: "hmm \<Rightarrow> nat" where
  "M_of s = (case B s of [] \<Rightarrow> 0 | r # _ \<Rightarrow> length r)"

definition T_of :: "hmm \<Rightarrow> nat" where
  "T_of s = length (Obs s)"

definition is_shape :: "nat \<Rightarrow> nat \<Rightarrow> 'a list list \<Rightarrow> bool" where
  "is_shape r c X \<longleftrightarrow> length X = r \<and> (\<forall>row \<in> set X. length row = c)"

text \<open>
  The shapes that \<^verbatim>\<open>hmm.HMM\<close>'s constructor, \<^verbatim>\<open>loaddata\<close>, \<^verbatim>\<open>forward\<close> and \<^verbatim>\<open>backward\<close>
  establish before \<^verbatim>\<open>learn\<close> runs: \<open>A\<close> is \<open>N \<times> N\<close>, \<open>B\<close> is \<open>N \<times> M\<close>, \<open>Pi\<close> has length \<open>N\<close>,
  and \<open>Z\<close>, \<open>alpha\<close>, \<open>beta\<close> are \<open>T \<times> N\<close> for a sequence of length \<open>T\<close>. The list operations
  below are NumPy's broadcasting on arrays of these shapes.
\<close>

definition shapes_ok :: "hmm \<Rightarrow> bool" where
  "shapes_ok s \<longleftrightarrow>
     is_shape (N_of s) (N_of s) (A s) \<and> is_shape (N_of s) (M_of s) (B s) \<and>
     is_shape (T_of s) (N_of s) (Z s) \<and> is_shape (T_of s) (N_of s) (alpha s) \<and>
     is_shape (T_of s) (N_of s) (beta s)"

section \<open>The leaky reestimation step\<close>

text \<open>
  \<^verbatim>\<open>hmmCHAR.learn\<close> (cell 15 of \<^verbatim>\<open>HMM/exhibition.ipynb\<close>):

  \<^verbatim>\<open>self.gamma = self.alpha*self.beta / self.pobs\<close>
\<close>

definition learn_gamma :: "hmm \<Rightarrow> mat" where
  "learn_gamma s =
     map2 (\<lambda>a b. map2 (\<lambda>x y. fdiv (fmul x y) (pobs s)) a b) (alpha s) (beta s)"

text \<open>
  \<^verbatim>\<open>self.xi = self.alpha[:-1,:,na]*self.A[na,:,:]*self.beta[1:,na,:]*self.Z[1:,na,:] / self.pobs\<close>

  The slices \<^verbatim>\<open>[:-1]\<close> and \<^verbatim>\<open>[1:]\<close> are \<open>butlast\<close> and \<open>tl\<close>; the result has one \<open>N \<times> N\<close>
  slice for each of the \<open>T - 1\<close> pairs of consecutive time steps.
\<close>

definition learn_xi :: "hmm \<Rightarrow> ten" where
  "learn_xi s =
     map (\<lambda>(a, b, z).
            map2 (\<lambda>ai Ai.
                    map (\<lambda>(Aij, bj, zj). fdiv (fmul (fmul (fmul ai Aij) bj) zj) (pobs s))
                      (zip Ai (zip b z)))
              a (A s))
       (zip (butlast (alpha s)) (zip (tl (beta s)) (tl (Z s))))"

text \<open>
  \<^verbatim>\<open>self.psi = self.gamma[:,:,na]*(self.O[:,na,na] == np.arange(self.B.shape[1])[na,na,:])\<close>

  The comparison yields booleans, which multiply as \<^verbatim>\<open>1.0\<close> and \<^verbatim>\<open>0.0\<close>.
\<close>

definition learn_psi :: "nat \<Rightarrow> int list \<Rightarrow> mat \<Rightarrow> ten" where
  "learn_psi m os g =
     map2 (\<lambda>gt ot. map (\<lambda>gi. map (\<lambda>k. fmul gi (Fin (if ot = int k then 1 else 0))) [0..<m]) gt)
       g os"

text \<open>\<^verbatim>\<open>X / v[:,na]\<close>: row \<open>i\<close> of \<open>X\<close> divided by \<open>v[i]\<close>.\<close>

definition div_rows :: "mat \<Rightarrow> vec \<Rightarrow> mat" where
  "div_rows X v = map2 (\<lambda>row d. map (\<lambda>x. fdiv x d) row) X v"

text \<open>
  \<^verbatim>\<open>self.xi.sum(axis=0) / self.gamma[:-1].sum(axis=0)[:,na]\<close> and
  \<^verbatim>\<open>self.psi.sum(axis=0) / self.gamma.sum(axis=0)[:,na]\<close>: the values a full replacement would
  assign to \<open>A\<close> and \<open>B\<close>.
\<close>

definition cand_A :: "nat \<Rightarrow> ten \<Rightarrow> mat \<Rightarrow> mat" where
  "cand_A n x g = div_rows (msum n n x) (vsum n (butlast g))"

definition cand_B :: "nat \<Rightarrow> nat \<Rightarrow> ten \<Rightarrow> mat \<Rightarrow> mat" where
  "cand_B n m p g = div_rows (msum n m p) (vsum n g)"

text \<open>\<^verbatim>\<open>w1*X + w2*Y\<close> for two float literals and two arrays of one shape.\<close>

definition mix_vec :: "real \<Rightarrow> real \<Rightarrow> vec \<Rightarrow> vec \<Rightarrow> vec" where
  "mix_vec w1 w2 X Y = map2 (\<lambda>a c. fadd (fmul (Fin w1) a) (fmul (Fin w2) c)) X Y"

definition mix_mat :: "real \<Rightarrow> real \<Rightarrow> mat \<Rightarrow> mat \<Rightarrow> mat" where
  "mix_mat w1 w2 X Y = map2 (mix_vec w1 w2) X Y"

text \<open>
  \<^verbatim>\<open>self.A  = 0.9*self.A + 0.1*(self.xi.sum(axis=0)  / self.gamma[:-1].sum(axis=0)[:,na])\<close>
  \<^verbatim>\<open>self.B  = 0.9*self.B + 0.1*(self.psi.sum(axis=0) / self.gamma.sum(axis=0)[:,na])\<close>
  \<^verbatim>\<open>self.Pi = 0.9*self.Pi + 0.1*(self.gamma[0])\<close>

  \<^verbatim>\<open>self.gamma[0]\<close> raises IndexError when the loaded sequence is empty; the attributes
  assigned before the exception are not part of the error value.
\<close>

definition learn :: "hmm \<Rightarrow> py_error + hmm" where
  "learn s =
     (let g = learn_gamma s;
          x = learn_xi s;
          p = learn_psi (M_of s) (Obs s) g;
          A' = mix_mat 0.9 0.1 (A s) (cand_A (N_of s) x g);
          B' = mix_mat 0.9 0.1 (B s) (cand_B (N_of s) (M_of s) p g)
      in case g of
           [] \<Rightarrow> Inl IndexError
         | g0 # _ \<Rightarrow>
             Inr (s\<lparr>gamma := g, xi := x, psi := p, A := A', B := B',
                    Pi := mix_vec 0.9 0.1 (Pi s) g0\<rparr>))"

section \<open>The sequence generator\<close>

text \<open>
  \<^verbatim>\<open>np.random.choice(n, p=v)\<close> belongs to NumPy, not to the repository: it is a parameter of
  the model. It reads and advances the state \<open>'g\<close> of NumPy's global generator and returns an
  index, or raises (ValueError when \<open>v\<close> is not a probability vector of length \<open>n\<close>).
\<close>

type_synonym 'g choice = "'g \<Rightarrow> nat \<Rightarrow> vec \<Rightarrow> py_error + (nat \<times> 'g)"

text \<open>
  The loop of \<^verbatim>\<open>hmmCHAR.generate\<close>:

  \<^verbatim>\<open>for i in range(l):\<close>
  \<^verbatim>\<open>    O += [np.random.choice(M, p=self.B[s])]\<close>
  \<^verbatim>\<open>    s = np.random.choice(N, p=self.A[s])\<close>

  Indexing a row that does not exist raises IndexError.
\<close>

fun gen_loop :: "'g choice \<Rightarrow> hmm \<Rightarrow> nat \<Rightarrow> nat \<Rightarrow> int list \<Rightarrow> 'g \<Rightarrow> py_error + (int list \<times> 'g)" where
  "gen_loop ch h 0 s out g = Inr (out, g)"
| "gen_loop ch h (Suc k) s out g =
     (if length (B h) \<le> s then Inl IndexError
      else case ch g (M_of h) (B h ! s) of
             Inl e \<Rightarrow> Inl e
           | Inr (ob, g1) \<Rightarrow>
               (if length (A h) \<le> s then Inl IndexError
                else case ch g1 (N_of h) (A h ! s) of
                       Inl e \<Rightarrow> Inl e
                     | Inr (s', g2) \<Rightarrow> gen_loop ch h k s' (out @ [int ob]) g2))"

text \<open>
  \<^verbatim>\<open>N, M = len(self.Pi), self.B.shape[1]\<close>
  \<^verbatim>\<open>s = np.random.choice(N, p=self.Pi)\<close>
  \<^verbatim>\<open>O = []\<close>, the loop, \<^verbatim>\<open>return np.array(O)\<close>

  \<^verbatim>\<open>range(l)\<close> is empty for \<open>l \<le> 0\<close>. The object is returned with the result, since the
  method could assign its attributes; the generator's state is returned as well.
\<close>

definition generate :: "'g choice \<Rightarrow> hmm \<Rightarrow> int \<Rightarrow> 'g \<Rightarrow> py_error + (hmm \<times> int list \<times> 'g)" where
  "generate ch h l g =
     (case ch g (N_of h) (Pi h) of
        Inl e \<Rightarrow> Inl e
      | Inr (s, g1) \<Rightarrow>
          (case gen_loop ch h (nat l) s [] g1 of
             Inl e \<Rightarrow> Inl e
           | Inr (out, g2) \<Rightarrow> Inr (h, out, g2)))"

text \<open>
  The generation algorithm in the words of the specification, as a relation between the
  hidden state and generator state before a run of steps, the symbols emitted, and the
  generator state after it: at each step a symbol is drawn from row \<open>s\<close> of \<open>B\<close> and the next
  state from row \<open>s\<close> of \<open>A\<close>.
\<close>

inductive emits :: "'g choice \<Rightarrow> hmm \<Rightarrow> nat \<Rightarrow> 'g \<Rightarrow> int list \<Rightarrow> 'g \<Rightarrow> bool"
  for ch :: "'g choice" and h :: hmm where
  emits_done: "emits ch h s g [] g"
| emits_step: "s < N_of h \<Longrightarrow> ch g (M_of h) (B h ! s) = Inr (ob, g1) \<Longrightarrow>
     ch g1 (N_of h) (A h ! s) = Inr (s', g2) \<Longrightarrow> emits ch h s' g2 os g3 \<Longrightarrow>
     emits ch h s g (int ob # os) g3"

section \<open>Finite arrays and example objects\<close>

definition fin_vec :: "vec \<Rightarrow> bool" where
  "fin_vec v \<longleftrightarrow> (\<forall>x \<in> set v. is_fin x)"

definition fin_mat :: "mat \<Rightarrow> bool" where
  "fin_mat X \<longleftrightarrow> (\<forall>v \<in> set X. fin_vec v)"

text \<open>
  The identities that make the statistics of \<^verbatim>\<open>learn\<close> posterior probabilities, stated on the
  inputs of \<^verbatim>\<open>learn\<close>: the statistics are finite and \<open>pobs\<close> is not zero;
  \<open>\<Sum>\<^sub>i alpha[0][i]\<cdot>beta[0][i] = pobs\<close>; \<open>beta\<close> satisfies the unscaled backward recursion
  \<open>beta[t][i] = \<Sum>\<^sub>j A[i][j]\<cdot>beta[t+1][j]\<cdot>Z[t+1][j]\<close>; and every hidden state has posterior mass,
  over the first \<open>T - 1\<close> time steps and over all of them.
\<close>

definition posterior_consistent :: "hmm \<Rightarrow> bool" where
  "posterior_consistent s \<longleftrightarrow>
     fin_mat (Z s) \<and> fin_mat (alpha s) \<and> fin_mat (beta s) \<and> is_fin (pobs s) \<and> rv (pobs s) \<noteq> 0 \<and>
     (\<Sum>i\<leftarrow>[0..<N_of s]. rv (alpha s ! 0 ! i) * rv (beta s ! 0 ! i)) = rv (pobs s) \<and>
     (\<forall>t \<in> set [0..<T_of s - 1]. \<forall>i \<in> set [0..<N_of s].
        (\<Sum>j\<leftarrow>[0..<N_of s]. rv (A s ! i ! j) * rv (beta s ! Suc t ! j) * rv (Z s ! Suc t ! j))
          = rv (beta s ! t ! i)) \<and>
     (\<forall>i \<in> set [0..<N_of s].
        (\<Sum>t\<leftarrow>[0..<T_of s - 1]. rv (alpha s ! t ! i) * rv (beta s ! t ! i)) \<noteq> 0 \<and>
        (\<Sum>t\<leftarrow>[0..<T_of s]. rv (alpha s ! t ! i) * rv (beta s ! t ! i)) \<noteq> 0)"

text \<open>Every row of a matrix sums to 1.\<close>

definition rows_sum_one :: "mat \<Rightarrow> bool" where
  "rows_sum_one X \<longleftrightarrow> (\<forall>r \<in> set X. fsum r = Fin 1)"

text \<open>
  A probability vector: finite, non-negative entries that sum to 1.
\<close>

definition prob_vec :: "vec \<Rightarrow> bool" where
  "prob_vec v \<longleftrightarrow> fsum v = Fin 1 \<and> (\<forall>x \<in> set v. is_fin x \<and> 0 \<le> rv x)"

text \<open>
  What the generator relies on from \<^verbatim>\<open>np.random.choice(n, p=v)\<close>: given a probability vector
  \<open>v\<close> of length \<open>n > 0\<close> it does not raise and returns an index below \<open>n\<close>.
\<close>

definition choice_ok :: "'g choice \<Rightarrow> bool" where
  "choice_ok ch \<longleftrightarrow>
     (\<forall>g n v. 0 < n \<and> length v = n \<and> prob_vec v \<longrightarrow> (\<exists>k g'. ch g n v = Inr (k, g') \<and> k < n))"

text \<open>
  A stand-in for the generator in examples: the state is a counter, the draw is the counter
  modulo \<open>n\<close>.
\<close>

definition counter_choice :: "nat choice" where
  "counter_choice g n v = (if n = 0 then Inl ValueError else Inr (g mod n, g + 1))"

text \<open>
  A model with two hidden states and two symbols, \<open>A = [[1/2, 1/2], [1/2, 1/2]]\<close>,
  \<open>B = [[1, 0], [1/2, 1/2]]\<close>, \<open>Pi = [1/2, 1/2]\<close>, with the sequence \<open>[0, 1]\<close> loaded.
  In \<open>toy_plain\<close> the statistics are those of the unscaled recursions of Rabiner's paper, which
  the notebook cites: \<open>alpha[0] = Pi\<cdot>Z[0]\<close>, \<open>alpha[t] = (alpha[t-1]\<cdot>A)\<cdot>Z[t]\<close>, \<open>pobs\<close> the sum of
  the last row of \<open>alpha\<close>, \<open>beta[T-1] = 1\<close>, \<open>beta[t] = A\<cdot>(beta[t+1]\<cdot>Z[t+1])\<close>.
\<close>

definition toy_plain :: hmm where
  "toy_plain =
     \<lparr>A = [[Fin (1/2), Fin (1/2)], [Fin (1/2), Fin (1/2)]],
      B = [[Fin 1, Fin 0], [Fin (1/2), Fin (1/2)]],
      Pi = [Fin (1/2), Fin (1/2)],
      Obs = [0, 1],
      Z = [[Fin 1, Fin (1/2)], [Fin 0, Fin (1/2)]],
      alpha = [[Fin (1/2), Fin (1/4)], [Fin 0, Fin (3/16)]],
      beta = [[Fin (1/4), Fin (1/4)], [Fin 1, Fin 1]],
      pobs = Fin (3/16),
      gamma = [], xi = [], psi = []\<rparr>"

text \<open>
  The same model and sequence with the statistics of the scaled passes that the specification
  describes (sections 4.3 and 4.4): every row of \<open>alpha\<close> is divided by its sum \<open>c[t]\<close>, \<open>pobs\<close> is
  the product of the \<open>c[t]\<close> (here \<open>3/4 \<cdot> 1/4\<close>) and row \<open>t\<close> of \<open>beta\<close> is divided by \<open>c[t+1]\<close>.
\<close>

definition toy_scaled :: hmm where
  "toy_scaled =
     toy_plain\<lparr>alpha := [[Fin (2/3), Fin (1/3)], [Fin 0, Fin 1]],
               beta := [[Fin 1, Fin 1], [Fin 1, Fin 1]]\<rparr>"

text \<open>The same model with the one-symbol sequence \<open>[0]\<close> loaded (unscaled statistics).\<close>

definition toy_short :: hmm where
  "toy_short =
     toy_plain\<lparr>Obs := [0], Z := [[Fin 1, Fin (1/2)]],
               alpha := [[Fin (1/2), Fin (1/4)]], beta := [[Fin 1, Fin 1]],
               pobs := Fin (3/4)\<rparr>"

text \<open>
  A model whose second hidden state is never visited: \<open>Pi = [1, 0]\<close> and both rows of \<open>A\<close> lead
  to the first state. Sequence \<open>[0, 0]\<close>, unscaled statistics.
\<close>

definition toy_unvisited :: hmm where
  "toy_unvisited =
     \<lparr>A = [[Fin 1, Fin 0], [Fin 1, Fin 0]],
      B = [[Fin (1/2), Fin (1/2)], [Fin (1/2), Fin (1/2)]],
      Pi = [Fin 1, Fin 0],
      Obs = [0, 0],
      Z = [[Fin (1/2), Fin (1/2)], [Fin (1/2), Fin (1/2)]],
      alpha = [[Fin (1/2), Fin 0], [Fin (1/4), Fin 0]],
      beta = [[Fin (1/2), Fin (1/2)], [Fin 1, Fin 1]],
      pobs = Fin (1/4),
      gamma = [], xi = [], psi = []\<rparr>"

text \<open>
  A sequence that the model cannot produce: one hidden state that only emits symbol \<open>0\<close>, and
  the sequence \<open>[1, 1]\<close>. Every emission likelihood is \<open>0\<close>, and so is \<open>pobs\<close>.
\<close>

definition toy_zero :: hmm where
  "toy_zero =
     \<lparr>A = [[Fin 1]],
      B = [[Fin 1, Fin 0]],
      Pi = [Fin 1],
      Obs = [1, 1],
      Z = [[Fin 0], [Fin 0]],
      alpha = [[Fin 0], [Fin 0]],
      beta = [[Fin 0], [Fin 1]],
      pobs = Fin 0,
      gamma = [], xi = [], psi = []\<rparr>"

section \<open>The passes that produce the statistics\<close>

text \<open>
  Modelled from the spec: \<^verbatim>\<open>hmm.py\<close> (the base class with \<^verbatim>\<open>loaddata\<close>, \<^verbatim>\<open>forward\<close>, \<^verbatim>\<open>backward\<close> and
  the full \<^verbatim>\<open>learn\<close>) is not among the sources. Sections 4.2 to 4.5 of the specification, on
  real numbers.

  \<^item> The emission cache \<open>Z[t][i] = B[i][O[t]]\<close>, which fails on a symbol outside \<open>[0, M)\<close>.
  \<^item> The forward pass: \<open>alpha[0][i] = Pi[i] * Z[0][i]\<close> and
    \<open>alpha[t][i] = Z[t][i] * (\<Sum>j. alpha[t-1][j] * A[j][i])\<close> from the normalised previous row;
    every row is normalised to sum 1, its sum before normalisation is the scaling factor
    \<open>c[t]\<close>, \<open>pobs\<close> is the product of the \<open>c[t]\<close>, and a row sum \<open>0\<close> is a degenerate sequence.
    \<open>fwd\<close> gives row \<open>t\<close> with its scaling factor.
  \<^item> The backward pass: \<open>beta[T-1][i] = 1\<close> and
    \<open>beta[t][i] = (\<Sum>j. A[i][j] * Z[t+1][j] * beta[t+1][j]) / c[t+1]\<close>. \<open>bwd\<close> gives the row that
    is \<open>d\<close> steps before the last one.
  \<^item> The statistics: \<open>gamma[t][i] = alpha[t][i] * beta[t][i]\<close>;
    \<open>xi[t][i][j] = alpha[t][i] * A[i][j] * beta[t+1][j] * Z[t+1][j]\<close>, every slice divided by its
    sum; \<open>psi[t][i][k]\<close> is \<open>gamma[t][i]\<close> where \<open>k\<close> is the symbol observed at \<open>t\<close> and \<open>0\<close>
    elsewhere.
  \<^item> Full EM: \<open>A_new[i][j] = (\<Sum>t. xi[t][i][j]) / (\<Sum>t. gamma[t][i])\<close>,
    \<open>B_new[i][k] = (\<Sum>t. psi[t][i][k]) / (\<Sum>t. gamma[t][i])\<close>, \<open>Pi_new[i] = gamma[0][i]\<close>, and a row
    whose denominator is \<open>0\<close> is left unchanged.
  \<^item> Leaky EM with mixing rate \<open>\<gamma>\<close>: \<open>A \<leftarrow> (1 - \<gamma>) * A + \<gamma> * A_new\<close>, the same for \<open>B\<close> and \<open>Pi\<close>,
    with the full-EM values as candidates.

  The ranges of the sums for \<open>A_new\<close>: \<open>xi\<close> is the \<open>(T-1) \<times> N \<times> N\<close> tensor of the data model, one
  slice for every \<open>t\<close> that has a successor, so its last index is \<open>T-2\<close>; the numerator sums all
  of its slices, and the denominator sums \<open>gamma\<close> over \<open>[0, T-1)\<close>, the same \<open>T-1\<close> time steps.
  This is also how \<^verbatim>\<open>hmmCHAR.learn\<close> forms its candidate,
  \<^verbatim>\<open>xi.sum(axis=0) / gamma[:-1].sum(axis=0)\<close>. For the empty sequence there is no \<open>gamma[0]\<close>
  and \<open>Pi\<close> is kept. \<open>spec_pobs\<close> is \<open>pobs\<close> of a model on a sequence: the emission cache followed
  by the forward pass.
\<close>

text \<open>Modelled from the spec: the two failures of the passes, a symbol outside the alphabet and a sequence of probability zero.\<close>

datatype spec_error = OutOfRangeSymbol | DegenerateSequence

text \<open>Modelled from the spec: the alphabet size \<open>M\<close>, the number of columns of \<open>B\<close>.\<close>

definition ncols :: "real list list \<Rightarrow> nat" where
  "ncols X = (case X of [] \<Rightarrow> 0 | r # _ \<Rightarrow> length r)"

text \<open>Modelled from the spec: section 4.2, \<open>Z[t][i] = B[i][O[t]]\<close>, refused when a symbol is outside \<open>[0, M)\<close>.\<close>

definition emission_cache :: "real list list \<Rightarrow> int list \<Rightarrow> spec_error + real list list" where
  "emission_cache Bm os =
     (if \<forall>ob \<in> set os. 0 \<le> ob \<and> ob < int (ncols Bm)
      then Inr (map (\<lambda>ob. map (\<lambda>row. row ! nat ob) Bm) os)
      else Inl OutOfRangeSymbol)"

text \<open>Modelled from the spec: section 4.3, a row divided by its sum, with the sum; a sum of \<open>0\<close> is a degenerate sequence.\<close>

definition normalise :: "real list \<Rightarrow> spec_error + (real list \<times> real)" where
  "normalise u =
     (let c = sum_list u
      in if c = 0 then Inl DegenerateSequence else Inr (map (\<lambda>x. x / c) u, c))"

text \<open>Modelled from the spec: section 4.3, row \<open>t\<close> of the normalised \<open>alpha\<close> and its scaling factor \<open>c[t]\<close>.\<close>

fun fwd :: "real list list \<Rightarrow> real list \<Rightarrow> real list list \<Rightarrow> nat \<Rightarrow> spec_error + (real list \<times> real)" where
  "fwd Am Pim Zm 0 = normalise (map (\<lambda>i. Pim ! i * Zm ! 0 ! i) [0..<length Pim])"
| "fwd Am Pim Zm (Suc t) =
     (case fwd Am Pim Zm t of
        Inl e \<Rightarrow> Inl e
      | Inr (prev, c) \<Rightarrow>
          normalise (map (\<lambda>i. Zm ! Suc t ! i * (\<Sum>j\<leftarrow>[0..<length Pim]. prev ! j * Am ! j ! i))
                       [0..<length Pim]))"

text \<open>Modelled from the spec: section 4.3, the rows of \<open>alpha\<close>, the scaling factors and \<open>pobs\<close>, their product.\<close>

definition forward_pass ::
  "real list list \<Rightarrow> real list \<Rightarrow> real list list \<Rightarrow> spec_error + (real list list \<times> real list \<times> real)" where
  "forward_pass Am Pim Zm =
     (let rows = map (fwd Am Pim Zm) [0..<length Zm]
      in if \<exists>r \<in> set rows. isl r then Inl DegenerateSequence
         else Inr (map (fst \<circ> projr) rows, map (snd \<circ> projr) rows,
                   prod_list (map (snd \<circ> projr) rows)))"

text \<open>Modelled from the spec: section 4.4, the row of \<open>beta\<close> that is \<open>d\<close> steps before the last one, divided by \<open>c[t+1]\<close>.\<close>

fun bwd :: "real list list \<Rightarrow> nat \<Rightarrow> real list list \<Rightarrow> real list \<Rightarrow> nat \<Rightarrow> real list" where
  "bwd Am n Zm cs 0 = replicate n 1"
| "bwd Am n Zm cs (Suc d) =
     (let t = length Zm - 1 - Suc d; nxt = bwd Am n Zm cs d
      in map (\<lambda>i. (\<Sum>j\<leftarrow>[0..<n]. Am ! i ! j * Zm ! Suc t ! j * nxt ! j) / cs ! Suc t) [0..<n])"

text \<open>Modelled from the spec: section 4.4, the rows of \<open>beta\<close> in order of time.\<close>

definition backward_pass :: "real list list \<Rightarrow> nat \<Rightarrow> real list list \<Rightarrow> real list \<Rightarrow> real list list" where
  "backward_pass Am n Zm cs = map (\<lambda>t. bwd Am n Zm cs (length Zm - 1 - t)) [0..<length Zm]"

text \<open>Modelled from the spec: section 4.5, \<open>gamma[t][i] = alpha[t][i] * beta[t][i]\<close>.\<close>

definition spec_gamma :: "real list list \<Rightarrow> real list list \<Rightarrow> real list list" where
  "spec_gamma al be = map2 (map2 (*)) al be"

text \<open>Modelled from the spec: section 4.5, the \<open>T-1\<close> slices of \<open>xi\<close>, each divided by the sum of its entries.\<close>

definition spec_xi :: "real list list \<Rightarrow> nat \<Rightarrow> real list list \<Rightarrow> real list list \<Rightarrow> real list list \<Rightarrow> real list list list" where
  "spec_xi Am n Zm al be =
     map (\<lambda>t. let raw = map (\<lambda>i. map (\<lambda>j. al ! t ! i * Am ! i ! j * be ! Suc t ! j * Zm ! Suc t ! j)
                                  [0..<n]) [0..<n];
                  c = sum_list (concat raw)
              in map (map (\<lambda>v. v / c)) raw)
       [0..<length Zm - 1]"

text \<open>Modelled from the spec: section 4.5, \<open>gamma[t][i]\<close> restricted to the symbol observed at time \<open>t\<close>.\<close>

definition spec_psi :: "nat \<Rightarrow> int list \<Rightarrow> real list list \<Rightarrow> real list list list" where
  "spec_psi m os ga =
     map2 (\<lambda>g ob. map (\<lambda>gi. map (\<lambda>k. if ob = int k then gi else 0) [0..<m]) g) ga os"

text \<open>Modelled from the spec: section 4.5, \<open>A_new\<close> of full EM; a row whose denominator is \<open>0\<close> is left unchanged.\<close>

definition full_em_A :: "real list list \<Rightarrow> nat \<Rightarrow> nat \<Rightarrow> real list list list \<Rightarrow> real list list \<Rightarrow> real list list" where
  "full_em_A Am n T xs ga =
     map (\<lambda>i. let den = (\<Sum>t\<leftarrow>[0..<T - 1]. ga ! t ! i)
              in if den = 0 then Am ! i
                 else map (\<lambda>j. (\<Sum>t\<leftarrow>[0..<T - 1]. xs ! t ! i ! j) / den) [0..<n])
       [0..<n]"

text \<open>Modelled from the spec: section 4.5, \<open>B_new\<close> of full EM; a row whose denominator is \<open>0\<close> is left unchanged.\<close>

definition full_em_B :: "real list list \<Rightarrow> nat \<Rightarrow> nat \<Rightarrow> nat \<Rightarrow> real list list list \<Rightarrow> real list list \<Rightarrow> real list list" where
  "full_em_B Bm n m T ps ga =
     map (\<lambda>i. let den = (\<Sum>t\<leftarrow>[0..<T]. ga ! t ! i)
              in if den = 0 then Bm ! i
                 else map (\<lambda>k. (\<Sum>t\<leftarrow>[0..<T]. ps ! t ! i ! k) / den) [0..<m])
       [0..<n]"

text \<open>Modelled from the spec: sections 4.2 to 4.5 in sequence, the emission cache, the two passes, the statistics and the full-EM replacement of \<open>A\<close>, \<open>B\<close> and \<open>Pi\<close>.\<close>

definition full_em_step ::
  "real list list \<Rightarrow> real list list \<Rightarrow> real list \<Rightarrow> int list \<Rightarrow>
   spec_error + (real list list \<times> real list list \<times> real list)" where
  "full_em_step Am Bm Pim os =
     (case emission_cache Bm os of
        Inl e \<Rightarrow> Inl e
      | Inr Zm \<Rightarrow>
          (case forward_pass Am Pim Zm of
             Inl e \<Rightarrow> Inl e
           | Inr (al, cs, pv) \<Rightarrow>
               (let n = length Pim; m = ncols Bm; T = length os;
                    be = backward_pass Am n Zm cs;
                    ga = spec_gamma al be;
                    xs = spec_xi Am n Zm al be;
                    ps = spec_psi m os ga
                in Inr (full_em_A Am n T xs ga, full_em_B Bm n m T ps ga,
                        (case ga of [] \<Rightarrow> Pim | g0 # _ \<Rightarrow> g0)))))"

text \<open>Modelled from the spec: sections 4.2 and 4.3, \<open>pobs\<close> of a model on a sequence.\<close>

definition spec_pobs :: "real list list \<Rightarrow> real list list \<Rightarrow> real list \<Rightarrow> int list \<Rightarrow> spec_error + real" where
  "spec_pobs Am Bm Pim os =
     (case emission_cache Bm os of
        Inl e \<Rightarrow> Inl e
      | Inr Zm \<Rightarrow>
          (case forward_pass Am Pim Zm of
             Inl e \<Rightarrow> Inl e
           | Inr (al, cs, pv) \<Rightarrow> Inr pv))"

text \<open>Modelled from the spec: the invariants of the data model, \<open>A\<close> is \<open>N \<times> N\<close> and \<open>B\<close> is \<open>N \<times> M\<close>, both row-stochastic, and \<open>Pi\<close> is a probability vector of length \<open>N\<close>.\<close>

definition valid_model :: "real list list \<Rightarrow> real list list \<Rightarrow> real list \<Rightarrow> bool" where
  "valid_model Am Bm Pim \<longleftrightarrow>
     length Am = length Pim \<and> length Bm = length Pim \<and>
     (\<forall>r \<in> set Am. length r = length Pim \<and> sum_list r = 1 \<and> (\<forall>v \<in> set r. 0 \<le> v)) \<and>
     (\<forall>r \<in> set Bm. length r = ncols Bm \<and> sum_list r = 1 \<and> (\<forall>v \<in> set r. 0 \<le> v)) \<and>
     sum_list Pim = 1 \<and> (\<forall>v \<in> set Pim. 0 \<le> v)"




section \<open>Unscaled forward and backward variables\<close>

text \<open>
  The quantities the proof of the likelihood guarantee works with; nothing here is part of the
  program. A model is read as functions \<open>p\<close>, \<open>a\<close> and \<open>z\<close> on indices (\<open>vf\<close> and \<open>mf\<close> read a
  list and a list of rows, with \<open>0\<close> outside). \<open>au\<close> and \<open>bu\<close> are the forward and backward
  variables without scaling, \<open>bu N a z t d\<close> the backward variable at time \<open>t\<close> when \<open>d\<close>
  steps remain; \<open>lik\<close> is the likelihood of the sequence, \<open>gu\<close> and \<open>xu\<close> the unnormalised
  \<open>gamma\<close> and \<open>xi\<close>, \<open>su\<close> the sum of row \<open>t\<close> of \<open>au\<close> and \<open>cu\<close> the scaling factor it
  induces. \<open>emR\<close> is the transition and emission part of the expected log-likelihood gain,
  accumulated from time \<open>t\<close> on. \<open>al_u\<close>, \<open>be_u\<close>, \<open>ga_u\<close> and \<open>xi_u\<close> are the arrays the scaled
  passes are shown to compute.
\<close>

fun au :: "nat \<Rightarrow> (nat \<Rightarrow> real) \<Rightarrow> (nat \<Rightarrow> nat \<Rightarrow> real) \<Rightarrow> (nat \<Rightarrow> nat \<Rightarrow> real) \<Rightarrow> nat \<Rightarrow> nat \<Rightarrow> real" where
  "au N p a z 0 i = p i * z 0 i"
| "au N p a z (Suc t) i = z (Suc t) i * (\<Sum>j<N. au N p a z t j * a j i)"

fun bu :: "nat \<Rightarrow> (nat \<Rightarrow> nat \<Rightarrow> real) \<Rightarrow> (nat \<Rightarrow> nat \<Rightarrow> real) \<Rightarrow> nat \<Rightarrow> nat \<Rightarrow> nat \<Rightarrow> real" where
  "bu N a z t 0 i = 1"
| "bu N a z t (Suc d) i = (\<Sum>j<N. a i j * z (Suc t) j * bu N a z (Suc t) d j)"

fun emR :: "nat \<Rightarrow> (nat \<Rightarrow> real) \<Rightarrow> (nat \<Rightarrow> nat \<Rightarrow> real) \<Rightarrow> (nat \<Rightarrow> nat \<Rightarrow> real) \<Rightarrow>
    (nat \<Rightarrow> nat \<Rightarrow> real) \<Rightarrow> (nat \<Rightarrow> nat \<Rightarrow> real) \<Rightarrow> nat \<Rightarrow> nat \<Rightarrow> real" where
  "emR N p a z a' z' t 0 = 0"
| "emR N p a z a' z' t (Suc d) =
     (\<Sum>i<N. \<Sum>j<N. au N p a z t i * a i j * z (Suc t) j * bu N a z (Suc t) d j *
        (ln (a' i j) - ln (a i j) + (ln (z' (Suc t) j) - ln (z (Suc t) j))))
     + emR N p a z a' z' (Suc t) d"

definition gu :: "nat \<Rightarrow> (nat \<Rightarrow> real) \<Rightarrow> (nat \<Rightarrow> nat \<Rightarrow> real) \<Rightarrow> (nat \<Rightarrow> nat \<Rightarrow> real) \<Rightarrow> nat \<Rightarrow> nat \<Rightarrow> nat \<Rightarrow> real" where
  "gu N p a z T t i = au N p a z t i * bu N a z t (T - 1 - t) i"

definition xu :: "nat \<Rightarrow> (nat \<Rightarrow> real) \<Rightarrow> (nat \<Rightarrow> nat \<Rightarrow> real) \<Rightarrow> (nat \<Rightarrow> nat \<Rightarrow> real) \<Rightarrow> nat \<Rightarrow> nat \<Rightarrow> nat \<Rightarrow> nat \<Rightarrow> real" where
  "xu N p a z T t i j = au N p a z t i * a i j * z (Suc t) j * bu N a z (Suc t) (T - 2 - t) j"

definition lik :: "nat \<Rightarrow> (nat \<Rightarrow> real) \<Rightarrow> (nat \<Rightarrow> nat \<Rightarrow> real) \<Rightarrow> (nat \<Rightarrow> nat \<Rightarrow> real) \<Rightarrow> nat \<Rightarrow> real" where
  "lik N p a z T = (\<Sum>i<N. au N p a z (T - 1) i)"

definition su :: "nat \<Rightarrow> (nat \<Rightarrow> real) \<Rightarrow> (nat \<Rightarrow> nat \<Rightarrow> real) \<Rightarrow> (nat \<Rightarrow> nat \<Rightarrow> real) \<Rightarrow> nat \<Rightarrow> real" where
  "su N p a z t = (\<Sum>i<N. au N p a z t i)"

definition agrees :: "real list list \<Rightarrow> real list \<Rightarrow> real list list \<Rightarrow> nat \<Rightarrow>
    (nat \<Rightarrow> real) \<Rightarrow> (nat \<Rightarrow> nat \<Rightarrow> real) \<Rightarrow> (nat \<Rightarrow> nat \<Rightarrow> real) \<Rightarrow> bool" where
  "agrees Am Pim Zm T p a z \<longleftrightarrow>
     (\<forall>i<length Pim. Pim ! i = p i) \<and>
     (\<forall>i<length Pim. \<forall>j<length Pim. Am ! i ! j = a i j) \<and>
     (\<forall>t<T. \<forall>i<length Pim. Zm ! t ! i = z t i)"

definition cu :: "nat \<Rightarrow> (nat \<Rightarrow> real) \<Rightarrow> (nat \<Rightarrow> nat \<Rightarrow> real) \<Rightarrow> (nat \<Rightarrow> nat \<Rightarrow> real) \<Rightarrow> nat \<Rightarrow> real" where
  "cu N p a z t = (if t = 0 then su N p a z 0 else su N p a z t / su N p a z (t - 1))"

definition fb_ok :: "real list list \<Rightarrow> real list \<Rightarrow> real list list \<Rightarrow> nat \<Rightarrow> nat \<Rightarrow>
    (nat \<Rightarrow> real) \<Rightarrow> (nat \<Rightarrow> nat \<Rightarrow> real) \<Rightarrow> (nat \<Rightarrow> nat \<Rightarrow> real) \<Rightarrow> bool" where
  "fb_ok Am Pim Zm T N p a z \<longleftrightarrow>
     agrees Am Pim Zm T p a z \<and> N = length Pim \<and> length Zm = T \<and> 0 < T \<and>
     (\<forall>t<T. su N p a z t \<noteq> 0)"

definition al_u :: "nat \<Rightarrow> (nat \<Rightarrow> real) \<Rightarrow> (nat \<Rightarrow> nat \<Rightarrow> real) \<Rightarrow> (nat \<Rightarrow> nat \<Rightarrow> real) \<Rightarrow> nat \<Rightarrow> real list list" where
  "al_u N p a z T = map (\<lambda>t. map (\<lambda>i. au N p a z t i / su N p a z t) [0..<N]) [0..<T]"

definition be_u :: "nat \<Rightarrow> (nat \<Rightarrow> real) \<Rightarrow> (nat \<Rightarrow> nat \<Rightarrow> real) \<Rightarrow> (nat \<Rightarrow> nat \<Rightarrow> real) \<Rightarrow> nat \<Rightarrow> real list list" where
  "be_u N p a z T =
     map (\<lambda>t. map (\<lambda>i. bu N a z t (T - 1 - t) i * su N p a z t / su N p a z (T - 1)) [0..<N]) [0..<T]"

definition ga_u :: "nat \<Rightarrow> (nat \<Rightarrow> real) \<Rightarrow> (nat \<Rightarrow> nat \<Rightarrow> real) \<Rightarrow> (nat \<Rightarrow> nat \<Rightarrow> real) \<Rightarrow> nat \<Rightarrow> real list list" where
  "ga_u N p a z T = map (\<lambda>t. map (\<lambda>i. gu N p a z T t i / lik N p a z T) [0..<N]) [0..<T]"

definition xi_u :: "nat \<Rightarrow> (nat \<Rightarrow> real) \<Rightarrow> (nat \<Rightarrow> nat \<Rightarrow> real) \<Rightarrow> (nat \<Rightarrow> nat \<Rightarrow> real) \<Rightarrow> nat \<Rightarrow> real list list list" where
  "xi_u N p a z T =
     map (\<lambda>t. map (\<lambda>i. map (\<lambda>j. xu N p a z T t i j / lik N p a z T) [0..<N]) [0..<N]) [0..<T - 1]"

definition vf :: "real list \<Rightarrow> nat \<Rightarrow> real" where
  "vf v i = (if i < length v then v ! i else 0)"

definition mf :: "real list list \<Rightarrow> nat \<Rightarrow> nat \<Rightarrow> real" where
  "mf X i j = (if i < length X \<and> j < length (X ! i) then X ! i ! j else 0)"

definition shaped :: "real list list \<Rightarrow> nat \<Rightarrow> nat \<Rightarrow> bool" where
  "shaped X r c \<longleftrightarrow> length X = r \<and> (\<forall>i<r. length (X ! i) = c)"

definition nonneg_mat :: "real list list \<Rightarrow> bool" where
  "nonneg_mat X \<longleftrightarrow> (\<forall>i<length X. \<forall>j<length (X ! i). 0 \<le> X ! i ! j)"

section \<open>Arithmetic of the float values\<close>

lemma fadd_zero_right: "fadd x (Fin 0) = x"
  by (cases x) simp_all

lemma is_fin_conv: "is_fin x \<longleftrightarrow> (\<exists>a. x = Fin a)"
  by (cases x) simp_all

lemma is_fin_rv: "is_fin x \<Longrightarrow> x = Fin (rv x)"
  by (cases x) simp_all

lemma fsum_Nil: "fsum [] = Fin 0"
  by (simp add: fsum_def)

lemma fsum_Cons: "fsum (x # xs) = fadd x (fsum xs)"
  by (simp add: fsum_def)

lemma fsum_fin: "fin_vec xs \<Longrightarrow> fsum xs = Fin (sum_list (map rv xs))"
proof (induction xs)
  case Nil
  show ?case by (simp add: fsum_Nil)
next
  case (Cons x xs)
  then have "is_fin x" and "fin_vec xs" by (simp_all add: fin_vec_def)
  then show ?case using Cons.IH by (cases x) (simp_all add: fsum_Cons)
qed

lemma fadd_not_fin: "\<not> is_fin x \<or> \<not> is_fin y \<Longrightarrow> \<not> is_fin (fadd x y)"
  by (cases x; cases y) simp_all

lemma fadd_is_fin: "is_fin (fadd x y) \<longleftrightarrow> is_fin x \<and> is_fin y"
  by (cases x; cases y) simp_all

lemma fsum_is_fin: "is_fin (fsum xs) \<longleftrightarrow> fin_vec xs"
  by (induction xs) (simp_all add: fsum_Nil fsum_Cons fadd_is_fin fin_vec_def)

lemma fdiv_zero_not_fin: "\<not> is_fin (fdiv x (Fin 0))"
  by (cases x) simp_all

lemma fdiv_not_fin_NaN: "\<not> is_fin x \<Longrightarrow> \<not> is_fin y \<Longrightarrow> fdiv x y = NaN"
  by (cases x; cases y) simp_all

lemma fmul_one_right: "fmul x (Fin 1) = x"
  by (cases x) simp_all

lemma fmul_one_left: "fmul (Fin 1) x = x"
  by (cases x) simp_all

lemma fmul_pos_is_fin: "0 < w \<Longrightarrow> is_fin (fmul (Fin w) x) \<longleftrightarrow> is_fin x"
  by (cases x) simp_all

lemma fadd_zero_left: "fadd (Fin 0) x = x"
  by (cases x) simp_all

section \<open>Shapes and entries of the statistics\<close>

lemma is_shape_nth: "is_shape r c X \<Longrightarrow> i < r \<Longrightarrow> length (X ! i) = c"
  by (simp add: is_shape_def)

lemma vsum_shape: "\<forall>x \<in> set xs. length x = n \<Longrightarrow> length (vsum n xs) = n"
  by (induction xs) (simp_all add: vsum_def)

lemma vsum_nth:
  "\<forall>x \<in> set xs. length x = n \<Longrightarrow> i < n \<Longrightarrow> vsum n xs ! i = fsum (map (\<lambda>x. x ! i) xs)"
proof (induction xs)
  case Nil
  then show ?case by (simp add: vsum_def fsum_Nil)
next
  case (Cons x xs)
  have len: "length (vsum n xs) = n" using Cons.prems(1) by (simp add: vsum_shape)
  have "vsum n (x # xs) = map2 fadd x (vsum n xs)" by (simp add: vsum_def)
  then show ?case using Cons len by (simp add: fsum_Cons)
qed

lemma msum_shape: "\<forall>x \<in> set xs. is_shape n m x \<Longrightarrow> is_shape n m (msum n m xs)"
proof (induction xs)
  case Nil
  then show ?case by (simp add: msum_def is_shape_def)
next
  case (Cons x xs)
  have eq: "msum n m (x # xs) = map2 (map2 fadd) x (msum n m xs)" by (simp add: msum_def)
  have a: "is_shape n m x" and b: "is_shape n m (msum n m xs)" using Cons by simp_all
  show ?case unfolding eq using a b
    by (auto simp: is_shape_def set_zip)
qed

lemma msum_nth:
  "\<forall>x \<in> set xs. is_shape n m x \<Longrightarrow> i < n \<Longrightarrow> j < m \<Longrightarrow>
   msum n m xs ! i ! j = fsum (map (\<lambda>x. x ! i ! j) xs)"
proof (induction xs)
  case Nil
  then show ?case by (simp add: msum_def fsum_Nil)
next
  case (Cons x xs)
  have eq: "msum n m (x # xs) = map2 (map2 fadd) x (msum n m xs)" by (simp add: msum_def)
  have a: "is_shape n m x" using Cons.prems by simp
  have b: "is_shape n m (msum n m xs)" using Cons.prems by (simp add: msum_shape)
  show ?case unfolding eq using a b Cons
    by (simp add: is_shape_def fsum_Cons)
qed


lemma shapes_okD:
  assumes "shapes_ok s"
  shows "length (A s) = N_of s" "length (B s) = N_of s" "length (Z s) = T_of s"
    "length (alpha s) = T_of s" "length (beta s) = T_of s"
    "i < N_of s \<Longrightarrow> length (A s ! i) = N_of s"
    "i < N_of s \<Longrightarrow> length (B s ! i) = M_of s"
    "t < T_of s \<Longrightarrow> length (Z s ! t) = N_of s"
    "t < T_of s \<Longrightarrow> length (alpha s ! t) = N_of s"
    "t < T_of s \<Longrightarrow> length (beta s ! t) = N_of s"
  using assms by (simp_all add: shapes_ok_def is_shape_def)

lemma learn_gamma_shape: "shapes_ok s \<Longrightarrow> is_shape (T_of s) (N_of s) (learn_gamma s)"
  by (auto simp: shapes_ok_def is_shape_def learn_gamma_def set_zip)

lemma learn_gamma_nth:
  "shapes_ok s \<Longrightarrow> t < T_of s \<Longrightarrow> i < N_of s \<Longrightarrow>
   learn_gamma s ! t ! i = fdiv (fmul (alpha s ! t ! i) (beta s ! t ! i)) (pobs s)"
  by (simp add: learn_gamma_def shapes_okD)

lemma learn_xi_length: "shapes_ok s \<Longrightarrow> length (learn_xi s) = T_of s - 1"
  by (simp add: learn_xi_def shapes_okD)

lemma learn_xi_shape:
  assumes "shapes_ok s" shows "\<forall>x \<in> set (learn_xi s). is_shape (N_of s) (N_of s) x"
proof
  fix x assume "x \<in> set (learn_xi s)"
  then obtain t where t: "t < T_of s - 1" and x: "x = learn_xi s ! t"
    using learn_xi_length[OF assms] by (metis in_set_conv_nth)
  have t1: "t < T_of s" "Suc t < T_of s" using t by simp_all
  show "is_shape (N_of s) (N_of s) x"
    unfolding x using assms t t1
    by (auto simp: learn_xi_def shapes_okD nth_butlast nth_tl is_shape_def set_zip)
qed

lemma learn_xi_nth:
  "shapes_ok s \<Longrightarrow> Suc t < T_of s \<Longrightarrow> i < N_of s \<Longrightarrow> j < N_of s \<Longrightarrow>
   learn_xi s ! t ! i ! j =
     fdiv (fmul (fmul (fmul (alpha s ! t ! i) (A s ! i ! j)) (beta s ! Suc t ! j)) (Z s ! Suc t ! j))
       (pobs s)"
  by (simp add: learn_xi_def shapes_okD nth_butlast nth_tl)

lemma learn_psi_length: "length g = length os \<Longrightarrow> length (learn_psi m os g) = length os"
  by (simp add: learn_psi_def)

lemma learn_psi_nth:
  "t < length g \<Longrightarrow> t < length os \<Longrightarrow> i < length (g ! t) \<Longrightarrow> k < m \<Longrightarrow>
   learn_psi m os g ! t ! i ! k = fmul (g ! t ! i) (Fin (if os ! t = int k then 1 else 0))"
  by (simp add: learn_psi_def)

lemma learn_psi_shape:
  "is_shape T n g \<Longrightarrow> length os = T \<Longrightarrow> \<forall>x \<in> set (learn_psi m os g). is_shape n m x"
  by (auto simp: learn_psi_def is_shape_def set_zip)

lemma div_rows_nth:
  "i < length X \<Longrightarrow> i < length v \<Longrightarrow> j < length (X ! i) \<Longrightarrow>
   div_rows X v ! i ! j = fdiv (X ! i ! j) (v ! i)"
  by (simp add: div_rows_def)

lemma div_rows_shape: "is_shape n m X \<Longrightarrow> length v = n \<Longrightarrow> is_shape n m (div_rows X v)"
  by (auto simp: div_rows_def is_shape_def set_zip)

lemma mix_vec_nth:
  "i < length X \<Longrightarrow> i < length Y \<Longrightarrow>
   mix_vec w1 w2 X Y ! i = fadd (fmul (Fin w1) (X ! i)) (fmul (Fin w2) (Y ! i))"
  by (simp add: mix_vec_def)

lemma mix_vec_length: "length (mix_vec w1 w2 X Y) = min (length X) (length Y)"
  by (simp add: mix_vec_def)

lemma mix_mat_length: "length (mix_mat w1 w2 X Y) = min (length X) (length Y)"
  by (simp add: mix_mat_def)

lemma mix_mat_nth_row:
  "i < length X \<Longrightarrow> i < length Y \<Longrightarrow> mix_mat w1 w2 X Y ! i = mix_vec w1 w2 (X ! i) (Y ! i)"
  by (simp add: mix_mat_def)

lemma mix_mat_shape: "is_shape n m X \<Longrightarrow> is_shape n m Y \<Longrightarrow> is_shape n m (mix_mat w1 w2 X Y)"
  by (auto simp: mix_mat_def mix_vec_def is_shape_def set_zip)

lemma cand_A_shape:
  assumes "shapes_ok s"
  shows "is_shape (N_of s) (N_of s) (cand_A (N_of s) (learn_xi s) (learn_gamma s))"
proof -
  have "\<forall>v \<in> set (butlast (learn_gamma s)). length v = N_of s"
    using learn_gamma_shape[OF assms] by (auto simp: is_shape_def dest: in_set_butlastD)
  then have "length (vsum (N_of s) (butlast (learn_gamma s))) = N_of s"
    by (rule vsum_shape)
  then show ?thesis
    unfolding cand_A_def using msum_shape[OF learn_xi_shape[OF assms]]
    by (simp add: div_rows_shape)
qed

lemma cand_A_nth:
  assumes "shapes_ok s" "i < N_of s" "j < N_of s"
  shows "cand_A (N_of s) (learn_xi s) (learn_gamma s) ! i ! j =
     fdiv (fsum (map (\<lambda>t. learn_xi s ! t ! i ! j) [0..<T_of s - 1]))
          (fsum (map (\<lambda>t. learn_gamma s ! t ! i) [0..<T_of s - 1]))"
proof -
  let ?n = "N_of s"
  have sh: "is_shape ?n ?n (msum ?n ?n (learn_xi s))"
    using msum_shape[OF learn_xi_shape[OF assms(1)]] .
  have gl: "\<forall>v \<in> set (butlast (learn_gamma s)). length v = ?n"
    using learn_gamma_shape[OF assms(1)] by (auto simp: is_shape_def dest: in_set_butlastD)
  have vl: "length (vsum ?n (butlast (learn_gamma s))) = ?n" using gl by (rule vsum_shape)
  have glen: "length (learn_gamma s) = T_of s"
    using learn_gamma_shape[OF assms(1)] by (simp add: is_shape_def)
  have 1: "msum ?n ?n (learn_xi s) ! i ! j = fsum (map (\<lambda>x. x ! i ! j) (learn_xi s))"
    using msum_nth[OF learn_xi_shape[OF assms(1)] assms(2,3)] .
  have 2: "map (\<lambda>x. x ! i ! j) (learn_xi s) = map (\<lambda>t. learn_xi s ! t ! i ! j) [0..<T_of s - 1]"
    using learn_xi_length[OF assms(1)] by (intro nth_equalityI) simp_all
  have 3: "vsum ?n (butlast (learn_gamma s)) ! i = fsum (map (\<lambda>x. x ! i) (butlast (learn_gamma s)))"
    using vsum_nth[OF gl assms(2)] .
  have 4: "map (\<lambda>x. x ! i) (butlast (learn_gamma s)) = map (\<lambda>t. learn_gamma s ! t ! i) [0..<T_of s - 1]"
    using glen by (intro nth_equalityI) (simp_all add: nth_butlast)
  show ?thesis
    unfolding cand_A_def using sh vl assms(2,3)
    by (simp add: div_rows_nth is_shape_def 1 2 3 4)
qed

lemma cand_B_shape:
  assumes "shapes_ok s"
  shows "is_shape (N_of s) (M_of s) (cand_B (N_of s) (M_of s) (learn_psi (M_of s) (Obs s) (learn_gamma s)) (learn_gamma s))"
proof -
  have g: "is_shape (T_of s) (N_of s) (learn_gamma s)" using learn_gamma_shape[OF assms] .
  have "\<forall>v \<in> set (learn_gamma s). length v = N_of s"
    using g by (auto simp: is_shape_def)
  then have "length (vsum (N_of s) (learn_gamma s)) = N_of s"
    by (rule vsum_shape)
  moreover have "\<forall>x \<in> set (learn_psi (M_of s) (Obs s) (learn_gamma s)). is_shape (N_of s) (M_of s) x"
    using learn_psi_shape[OF g] by (simp add: T_of_def)
  ultimately show ?thesis
    unfolding cand_B_def using msum_shape by (simp add: div_rows_shape)
qed

lemma cand_B_nth:
  assumes "shapes_ok s" "i < N_of s" "k < M_of s"
  shows "cand_B (N_of s) (M_of s) (learn_psi (M_of s) (Obs s) (learn_gamma s)) (learn_gamma s) ! i ! k =
     fdiv (fsum (map (\<lambda>t. learn_psi (M_of s) (Obs s) (learn_gamma s) ! t ! i ! k) [0..<T_of s]))
          (fsum (map (\<lambda>t. learn_gamma s ! t ! i) [0..<T_of s]))"
proof -
  let ?n = "N_of s" and ?m = "M_of s"
  let ?p = "learn_psi (M_of s) (Obs s) (learn_gamma s)"
  have g: "is_shape (T_of s) ?n (learn_gamma s)" using learn_gamma_shape[OF assms(1)] .
  have psh: "\<forall>x \<in> set ?p. is_shape ?n ?m x"
    using learn_psi_shape[OF g] by (simp add: T_of_def)
  have sh: "is_shape ?n ?m (msum ?n ?m ?p)" using msum_shape[OF psh] .
  have gl: "\<forall>v \<in> set (learn_gamma s). length v = ?n" using g by (auto simp: is_shape_def)
  have vl: "length (vsum ?n (learn_gamma s)) = ?n" using gl by (rule vsum_shape)
  have glen: "length (learn_gamma s) = T_of s" using g by (simp add: is_shape_def)
  have plen: "length ?p = T_of s" using glen by (simp add: learn_psi_def T_of_def)
  have 1: "msum ?n ?m ?p ! i ! k = fsum (map (\<lambda>x. x ! i ! k) ?p)"
    using msum_nth[OF psh assms(2,3)] .
  have 2: "map (\<lambda>x. x ! i ! k) ?p = map (\<lambda>t. ?p ! t ! i ! k) [0..<T_of s]"
    using plen by (intro nth_equalityI) simp_all
  have 3: "vsum ?n (learn_gamma s) ! i = fsum (map (\<lambda>x. x ! i) (learn_gamma s))"
    using vsum_nth[OF gl assms(2)] .
  have 4: "map (\<lambda>x. x ! i) (learn_gamma s) = map (\<lambda>t. learn_gamma s ! t ! i) [0..<T_of s]"
    using glen by (intro nth_equalityI) simp_all
  show ?thesis
    unfolding cand_B_def using sh vl assms(2,3)
    by (simp add: div_rows_nth is_shape_def 1 2 3 4)
qed

lemma learn_Inr_iff:
  "learn s = Inr s' \<longleftrightarrow>
     learn_gamma s \<noteq> [] \<and>
     s' = s\<lparr>gamma := learn_gamma s, xi := learn_xi s,
            psi := learn_psi (M_of s) (Obs s) (learn_gamma s),
            A := mix_mat 0.9 0.1 (A s) (cand_A (N_of s) (learn_xi s) (learn_gamma s)),
            B := mix_mat 0.9 0.1 (B s)
                   (cand_B (N_of s) (M_of s) (learn_psi (M_of s) (Obs s) (learn_gamma s)) (learn_gamma s)),
            Pi := mix_vec 0.9 0.1 (Pi s) (hd (learn_gamma s))\<rparr>"
  by (cases "learn_gamma s") (auto simp: learn_def Let_def)

lemma learn_total:
  "shapes_ok s \<Longrightarrow> 0 < T_of s \<Longrightarrow> \<exists>s'. learn s = Inr s'"
  using learn_gamma_shape[of s] by (cases "learn_gamma s") (auto simp: learn_def Let_def is_shape_def)

lemma learn_Inr_T: "shapes_ok s \<Longrightarrow> learn s = Inr s' \<Longrightarrow> 0 < T_of s"
  using learn_gamma_shape[of s] by (cases "learn_gamma s") (auto simp: learn_def Let_def is_shape_def)


lemma fsum_map_Fin: "fsum (map (\<lambda>i. Fin (f i)) xs) = Fin (\<Sum>i\<leftarrow>xs. f i)"
  by (induction xs) (simp_all add: fsum_Nil fsum_Cons)

lemma sum_list_div_const: "(\<Sum>i\<leftarrow>xs. f i / c) = (\<Sum>i\<leftarrow>xs. f i) / (c::real)"
  by (induction xs) (simp_all add: add_divide_distrib)

lemma list_as_map_nth: "length v = n \<Longrightarrow> v = map (\<lambda>i. v ! i) [0..<n]"
  by (auto intro: nth_equalityI)

lemma fin_vec_nth: "fin_vec v \<Longrightarrow> i < length v \<Longrightarrow> v ! i = Fin (rv (v ! i))"
  by (rule is_fin_rv) (simp add: fin_vec_def)

lemma learn_fields:
  assumes "learn s = Inr s'"
  shows "gamma s' = learn_gamma s" "xi s' = learn_xi s"
    "psi s' = learn_psi (M_of s) (Obs s) (learn_gamma s)"
    "A s' = mix_mat 0.9 0.1 (A s) (cand_A (N_of s) (learn_xi s) (learn_gamma s))"
    "B s' = mix_mat 0.9 0.1 (B s)
       (cand_B (N_of s) (M_of s) (learn_psi (M_of s) (Obs s) (learn_gamma s)) (learn_gamma s))"
    "Pi s' = mix_vec 0.9 0.1 (Pi s) (learn_gamma s ! 0)"
    "learn_gamma s \<noteq> []"
  using assms by (cases "learn_gamma s"; simp add: learn_def Let_def; fastforce)+

section \<open>Evaluating the example objects\<close>

lemmas toy_defs = toy_plain_def toy_scaled_def toy_short_def toy_unvisited_def toy_zero_def

lemmas learn_eval = learn_def learn_gamma_def learn_xi_def learn_psi_def cand_A_def cand_B_def
  div_rows_def msum_def vsum_def mix_mat_def mix_vec_def N_of_def M_of_def T_of_def Let_def
  fsum_def

lemmas shape_eval = shapes_ok_def is_shape_def N_of_def M_of_def T_of_def

lemma toy_plain_learn: "learn toy_plain = Inr (projr (learn toy_plain))"
  by (simp add: learn_eval toy_defs)

lemma toy_plain_shapes: "shapes_ok toy_plain"
  by (simp add: shape_eval toy_defs)

section \<open>The posterior statistics\<close>

text \<open>
  Claim C1, as the code has it. The specification says that \<open>gamma[t][i]\<close> is the product
  \<open>alpha[t][i]\<cdot>beta[t][i]\<close> with no further division by \<open>pobs\<close>, and that every row of \<open>gamma\<close>
  sums to 1. \<^verbatim>\<open>learn\<close> divides the product by \<open>pobs\<close>: for every time step \<open>t\<close> and state \<open>i\<close>,
  \<open>gamma[t][i] = alpha[t][i]\<cdot>beta[t][i] / pobs\<close>. When the two rows and \<open>pobs\<close> are finite and
  \<open>pobs\<close> is not zero, row \<open>t\<close> of \<open>gamma\<close> sums to \<open>(\<Sum>\<^sub>i alpha[t][i]\<cdot>beta[t][i]) / pobs\<close>, so it sums
  to 1 exactly when \<open>\<Sum>\<^sub>i alpha[t][i]\<cdot>beta[t][i] = pobs\<close> (as the unscaled recursions give).
\<close>

theorem learn_gamma_divides_by_pobs:
  assumes "shapes_ok s" and "learn s = Inr s'"
  shows "\<forall>t<T_of s.
      (\<forall>i<N_of s. gamma s' ! t ! i = fdiv (fmul (alpha s ! t ! i) (beta s ! t ! i)) (pobs s)) \<and>
      (fin_vec (alpha s ! t) \<and> fin_vec (beta s ! t) \<and> is_fin (pobs s) \<and> rv (pobs s) \<noteq> 0 \<longrightarrow>
         fsum (gamma s' ! t) =
           Fin ((\<Sum>i\<leftarrow>[0..<N_of s]. rv (alpha s ! t ! i) * rv (beta s ! t ! i)) / rv (pobs s)) \<and>
         (fsum (gamma s' ! t) = Fin 1 \<longleftrightarrow>
           (\<Sum>i\<leftarrow>[0..<N_of s]. rv (alpha s ! t ! i) * rv (beta s ! t ! i)) = rv (pobs s)))"
proof (intro allI impI conjI)
  fix t i assume t: "t < T_of s" and i: "i < N_of s"
  show "gamma s' ! t ! i = fdiv (fmul (alpha s ! t ! i) (beta s ! t ! i)) (pobs s)"
    using learn_fields(1)[OF assms(2)] learn_gamma_nth[OF assms(1) t i] by simp
next
  fix t assume t: "t < T_of s"
    and fin: "fin_vec (alpha s ! t) \<and> fin_vec (beta s ! t) \<and> is_fin (pobs s) \<and> rv (pobs s) \<noteq> 0"
  let ?n = "N_of s"
  let ?p = "rv (pobs s)"
  let ?f = "\<lambda>i. rv (alpha s ! t ! i) * rv (beta s ! t ! i)"
  have p: "pobs s = Fin ?p" using fin by (intro is_fin_rv) simp
  have len: "length (learn_gamma s ! t) = ?n"
    using learn_gamma_shape[OF assms(1)] t by (simp add: is_shape_def)
  have entry: "learn_gamma s ! t ! i = Fin (?f i / ?p)" if "i < ?n" for i
  proof -
    have a: "alpha s ! t ! i = Fin (rv (alpha s ! t ! i))"
      using fin that t shapes_okD(9)[OF assms(1)] by (intro fin_vec_nth) simp_all
    have b: "beta s ! t ! i = Fin (rv (beta s ! t ! i))"
      using fin that t shapes_okD(10)[OF assms(1)] by (intro fin_vec_nth) simp_all
    have "learn_gamma s ! t ! i = fdiv (fmul (Fin (rv (alpha s ! t ! i))) (Fin (rv (beta s ! t ! i)))) (Fin ?p)"
      using learn_gamma_nth[OF assms(1) t that] a b p by simp
    then show ?thesis using fin by simp
  qed
  have "learn_gamma s ! t = map (\<lambda>i. learn_gamma s ! t ! i) [0..<?n]"
    using len by (rule list_as_map_nth)
  also have "\<dots> = map (\<lambda>i. Fin (?f i / ?p)) [0..<?n]"
    using entry by simp
  finally have row: "learn_gamma s ! t = map (\<lambda>i. Fin (?f i / ?p)) [0..<?n]" .
  show sum: "fsum (gamma s' ! t) = Fin ((\<Sum>i\<leftarrow>[0..<?n]. ?f i) / ?p)"
    unfolding learn_fields(1)[OF assms(2)] row fsum_map_Fin sum_list_div_const ..
  show "fsum (gamma s' ! t) = Fin 1 \<longleftrightarrow> (\<Sum>i\<leftarrow>[0..<?n]. ?f i) = ?p"
    unfolding sum using fin by auto
qed

theorem learn_gamma_divides_by_pobs_witness:
  "shapes_ok toy_plain \<and> learn toy_plain = Inr (projr (learn toy_plain)) \<and>
   gamma (projr (learn toy_plain)) ! 0 ! 1 = fdiv (fmul (Fin (1/4)) (Fin (1/4))) (Fin (3/16)) \<and>
   fsum (gamma (projr (learn toy_plain)) ! 0) = Fin 1"
proof -
  have t: "0 < T_of toy_plain" by (simp add: T_of_def toy_defs)
  have i: "1 < N_of toy_plain" by (simp add: N_of_def toy_defs)
  have fin: "fin_vec (alpha toy_plain ! 0) \<and> fin_vec (beta toy_plain ! 0) \<and>
      is_fin (pobs toy_plain) \<and> rv (pobs toy_plain) \<noteq> 0"
    by (simp add: fin_vec_def toy_defs)
  from learn_gamma_divides_by_pobs[OF toy_plain_shapes toy_plain_learn] t
  have th: "(\<forall>i<N_of toy_plain. gamma (projr (learn toy_plain)) ! 0 ! i =
        fdiv (fmul (alpha toy_plain ! 0 ! i) (beta toy_plain ! 0 ! i)) (pobs toy_plain)) \<and>
      (fin_vec (alpha toy_plain ! 0) \<and> fin_vec (beta toy_plain ! 0) \<and>
       is_fin (pobs toy_plain) \<and> rv (pobs toy_plain) \<noteq> 0 \<longrightarrow>
         fsum (gamma (projr (learn toy_plain)) ! 0) =
           Fin ((\<Sum>i\<leftarrow>[0..<N_of toy_plain]. rv (alpha toy_plain ! 0 ! i) * rv (beta toy_plain ! 0 ! i))
                / rv (pobs toy_plain)) \<and>
         (fsum (gamma (projr (learn toy_plain)) ! 0) = Fin 1 \<longleftrightarrow>
           (\<Sum>i\<leftarrow>[0..<N_of toy_plain]. rv (alpha toy_plain ! 0 ! i) * rv (beta toy_plain ! 0 ! i))
             = rv (pobs toy_plain)))"
    by blast
  have g: "gamma (projr (learn toy_plain)) ! 0 ! 1 = fdiv (fmul (Fin (1/4)) (Fin (1/4))) (Fin (3/16))"
    using th i by (simp add: toy_defs)
  have "fsum (gamma (projr (learn toy_plain)) ! 0) =
      Fin ((\<Sum>i\<leftarrow>[0..<N_of toy_plain]. rv (alpha toy_plain ! 0 ! i) * rv (beta toy_plain ! 0 ! i))
                / rv (pobs toy_plain))"
    using th fin by blast
  then have "fsum (gamma (projr (learn toy_plain)) ! 0) = Fin 1"
    by (simp add: N_of_def toy_defs upt_rec)
  then show ?thesis using toy_plain_shapes toy_plain_learn g by simp
qed

text \<open>
  The claim fails as stated. On \<open>toy_scaled\<close> (row-normalised \<open>alpha\<close>, as the specification has
  the forward pass) \<open>gamma[0][0]\<close> is \<open>32/9\<close>, not the product \<open>2/3\<close>, and row 0 sums to
  \<open>16/3 = 1/pobs\<close>. On \<open>toy_plain\<close> (unscaled statistics) the row sums to 1, and still
  \<open>gamma[0][0] = 2/3\<close> is the product \<open>1/8\<close> divided by \<open>pobs = 3/16\<close>.
\<close>

theorem learn_gamma_counterexample:
  "learn toy_scaled = Inr (projr (learn toy_scaled)) \<and>
   gamma (projr (learn toy_scaled)) ! 0 ! 0 = Fin (32/9) \<and>
   fmul (alpha toy_scaled ! 0 ! 0) (beta toy_scaled ! 0 ! 0) = Fin (2/3) \<and>
   fsum (gamma (projr (learn toy_scaled)) ! 0) = Fin (16/3) \<and>
   learn toy_plain = Inr (projr (learn toy_plain)) \<and>
   gamma (projr (learn toy_plain)) ! 0 ! 0 = Fin (2/3) \<and>
   fmul (alpha toy_plain ! 0 ! 0) (beta toy_plain ! 0 ! 0) = Fin (1/8)"
  by (simp add: learn_eval toy_defs)

lemma learn_A_nth:
  assumes "shapes_ok s" "learn s = Inr s'" "i < N_of s" "j < N_of s"
  shows "A s' ! i ! j =
     fadd (fmul (Fin 0.9) (A s ! i ! j))
       (fmul (Fin 0.1)
          (fdiv (fsum (map (\<lambda>t. learn_xi s ! t ! i ! j) [0..<T_of s - 1]))
                (fsum (map (\<lambda>t. learn_gamma s ! t ! i) [0..<T_of s - 1]))))"
proof -
  have c: "is_shape (N_of s) (N_of s) (cand_A (N_of s) (learn_xi s) (learn_gamma s))"
    using cand_A_shape[OF assms(1)] .
  show ?thesis
    unfolding learn_fields(4)[OF assms(2)]
    using c assms(3,4) shapes_okD(1,6)[OF assms(1)] cand_A_nth[OF assms(1,3,4)]
    by (simp add: mix_mat_nth_row mix_vec_nth is_shape_def)
qed

lemma learn_B_nth:
  assumes "shapes_ok s" "learn s = Inr s'" "i < N_of s" "k < M_of s"
  shows "B s' ! i ! k =
     fadd (fmul (Fin 0.9) (B s ! i ! k))
       (fmul (Fin 0.1)
          (fdiv (fsum (map (\<lambda>t. learn_psi (M_of s) (Obs s) (learn_gamma s) ! t ! i ! k) [0..<T_of s]))
                (fsum (map (\<lambda>t. learn_gamma s ! t ! i) [0..<T_of s]))))"
proof -
  have c: "is_shape (N_of s) (M_of s)
      (cand_B (N_of s) (M_of s) (learn_psi (M_of s) (Obs s) (learn_gamma s)) (learn_gamma s))"
    using cand_B_shape[OF assms(1)] .
  show ?thesis
    unfolding learn_fields(5)[OF assms(2)]
    using c assms(3,4) shapes_okD(2,7)[OF assms(1)] cand_B_nth[OF assms(1,3,4)]
    by (simp add: mix_mat_nth_row mix_vec_nth is_shape_def)
qed

lemma learn_Pi_nth:
  assumes "shapes_ok s" "learn s = Inr s'" "i < N_of s"
  shows "Pi s' ! i = fadd (fmul (Fin 0.9) (Pi s ! i)) (fmul (Fin 0.1) (learn_gamma s ! 0 ! i))"
proof -
  have "0 < T_of s" using learn_Inr_T[OF assms(1,2)] .
  then have "length (learn_gamma s ! 0) = N_of s"
    using learn_gamma_shape[OF assms(1)] by (simp add: is_shape_def)
  then show ?thesis
    unfolding learn_fields(6)[OF assms(2)] using assms(3)
    by (simp add: mix_vec_nth N_of_def)
qed

section \<open>The update rule\<close>

text \<open>
  Claim C3. \<^verbatim>\<open>learn\<close> sets \<open>A\<close> to \<open>(1 - \<gamma>)\<cdot>A + \<gamma>\<cdot>\<A>\<close> with the fixed rate \<open>\<gamma> = 0.1\<close>, and \<open>B\<close> and
  \<open>Pi\<close> in the same way, where the candidates are
  \<open>\<A>[i][j] = \<Sum>\<^sub>t xi[t][i][j] / \<Sum>\<^sub>t gamma[t][i]\<close> (both sums over the \<open>T - 1\<close> time steps that have a
  successor), \<open>\<B>[i][k] = \<Sum>\<^sub>t psi[t][i][k] / \<Sum>\<^sub>t gamma[t][i]\<close> (both sums over all \<open>T\<close> time steps)
  and \<open>gamma[0][i]\<close> for \<open>Pi\<close>, all computed from the loaded sequence. The equations hold in
  NumPy's arithmetic, special values included.
\<close>

theorem learn_leaky_update:
  assumes "shapes_ok s" and "learn s = Inr s'"
  shows "(\<forall>i<N_of s. \<forall>j<N_of s.
            A s' ! i ! j =
              fadd (fmul (Fin (1 - 0.1)) (A s ! i ! j))
                (fmul (Fin 0.1)
                   (fdiv (fsum (map (\<lambda>t. xi s' ! t ! i ! j) [0..<T_of s - 1]))
                         (fsum (map (\<lambda>t. gamma s' ! t ! i) [0..<T_of s - 1]))))) \<and>
         (\<forall>i<N_of s. \<forall>k<M_of s.
            B s' ! i ! k =
              fadd (fmul (Fin (1 - 0.1)) (B s ! i ! k))
                (fmul (Fin 0.1)
                   (fdiv (fsum (map (\<lambda>t. psi s' ! t ! i ! k) [0..<T_of s]))
                         (fsum (map (\<lambda>t. gamma s' ! t ! i) [0..<T_of s]))))) \<and>
         (\<forall>i<N_of s.
            Pi s' ! i = fadd (fmul (Fin (1 - 0.1)) (Pi s ! i)) (fmul (Fin 0.1) (gamma s' ! 0 ! i)))"
  using learn_A_nth[OF assms] learn_B_nth[OF assms] learn_Pi_nth[OF assms]
  by (simp add: learn_fields(1,2,3)[OF assms(2)])

theorem learn_leaky_update_witness:
  "shapes_ok toy_plain \<and> learn toy_plain = Inr (projr (learn toy_plain)) \<and>
   A (projr (learn toy_plain)) ! 0 ! 1 = Fin (11/20) \<and>
   B (projr (learn toy_plain)) ! 1 ! 0 = Fin (19/40) \<and>
   Pi (projr (learn toy_plain)) ! 0 = Fin (31/60)"
proof -
  note th = learn_leaky_update[OF toy_plain_shapes toy_plain_learn]
  have n: "0 < N_of toy_plain" "1 < N_of toy_plain" "0 < M_of toy_plain"
    by (simp_all add: N_of_def M_of_def toy_defs)
  have a: "A (projr (learn toy_plain)) ! 0 ! 1 =
      fadd (fmul (Fin (1 - 0.1)) (A toy_plain ! 0 ! 1))
        (fmul (Fin 0.1)
           (fdiv (fsum (map (\<lambda>t. xi (projr (learn toy_plain)) ! t ! 0 ! 1) [0..<T_of toy_plain - 1]))
                 (fsum (map (\<lambda>t. gamma (projr (learn toy_plain)) ! t ! 0) [0..<T_of toy_plain - 1]))))"
    using th n by blast
  have b: "B (projr (learn toy_plain)) ! 1 ! 0 =
      fadd (fmul (Fin (1 - 0.1)) (B toy_plain ! 1 ! 0))
        (fmul (Fin 0.1)
           (fdiv (fsum (map (\<lambda>t. psi (projr (learn toy_plain)) ! t ! 1 ! 0) [0..<T_of toy_plain]))
                 (fsum (map (\<lambda>t. gamma (projr (learn toy_plain)) ! t ! 1) [0..<T_of toy_plain]))))"
    using th n by blast
  have c: "Pi (projr (learn toy_plain)) ! 0 =
      fadd (fmul (Fin (1 - 0.1)) (Pi toy_plain ! 0)) (fmul (Fin 0.1) (gamma (projr (learn toy_plain)) ! 0 ! 0))"
    using th n by blast
  have g: "gamma (projr (learn toy_plain)) = [[Fin (2/3), Fin (1/3)], [Fin 0, Fin 1]]"
    by (simp add: learn_eval toy_defs)
  have x: "xi (projr (learn toy_plain)) = [[[Fin 0, Fin (2/3)], [Fin 0, Fin (1/3)]]]"
    by (simp add: learn_eval toy_defs)
  have p: "psi (projr (learn toy_plain)) =
      [[[Fin (2/3), Fin 0], [Fin (1/3), Fin 0]], [[Fin 0, Fin 0], [Fin 0, Fin 1]]]"
    by (simp add: learn_eval toy_defs upt_rec)
  have "A (projr (learn toy_plain)) ! 0 ! 1 = Fin (11/20)"
    unfolding a g x by (simp add: T_of_def toy_defs fsum_def)
  moreover have "B (projr (learn toy_plain)) ! 1 ! 0 = Fin (19/40)"
    unfolding b g p by (simp add: T_of_def toy_defs fsum_def upt_rec)
  moreover have "Pi (projr (learn toy_plain)) ! 0 = Fin (31/60)"
    unfolding c g by (simp add: toy_defs)
  ultimately show ?thesis using toy_plain_shapes toy_plain_learn by simp
qed

lemma fsum_append: "fin_vec xs \<Longrightarrow> fsum (xs @ ys) = fadd (fsum xs) (fsum ys)"
proof (induction xs)
  case Nil
  show ?case by (simp add: fsum_Nil fadd_zero_left)
next
  case (Cons x xs)
  then obtain a where x: "x = Fin a" and f: "fin_vec xs"
    by (auto simp: fin_vec_def is_fin_conv)
  obtain b where b: "fsum xs = Fin b" using fsum_fin[OF f] by simp
  show ?case using Cons.IH[OF f] x b
    by (cases "fsum ys") (simp_all add: fsum_Cons)
qed

lemma fsum_concat_Fin:
  "fsum (concat (map (\<lambda>i. map (\<lambda>j. Fin (f i j)) ys) xs)) = Fin (\<Sum>i\<leftarrow>xs. \<Sum>j\<leftarrow>ys. f i j)"
proof (induction xs)
  case Nil
  show ?case by (simp add: fsum_Nil)
next
  case (Cons x xs)
  have "fin_vec (map (\<lambda>j. Fin (f x j)) ys)" by (simp add: fin_vec_def)
  then show ?case using Cons by (simp add: fsum_append fsum_map_Fin)
qed

lemma fin_mat_nth: "fin_mat X \<Longrightarrow> i < length X \<Longrightarrow> fin_vec (X ! i)"
  by (simp add: fin_mat_def)

section \<open>The pairwise statistics\<close>

text \<open>
  Claim C4, as the code has it. For every \<open>t\<close> in \<open>[0, T-2]\<close>, \<^verbatim>\<open>learn\<close> computes
  \<open>xi[t][i][j] = alpha[t][i]\<cdot>A[i][j]\<cdot>beta[t+1][j]\<cdot>Z[t+1][j] / pobs\<close>: the product scaled by the one
  factor \<open>1/pobs\<close>, with no normalisation of the slice. When the operands are finite and \<open>pobs\<close>
  is not zero, the slice sums to the sum of the products divided by \<open>pobs\<close>, so it sums to 1
  exactly when \<open>\<Sum>\<^sub>i\<^sub>j alpha[t][i]\<cdot>A[i][j]\<cdot>beta[t+1][j]\<cdot>Z[t+1][j] = pobs\<close>.
\<close>

theorem learn_xi_scaled_by_pobs:
  assumes "shapes_ok s" and "learn s = Inr s'" and "Suc t < T_of s"
  shows "(\<forall>i<N_of s. \<forall>j<N_of s.
            xi s' ! t ! i ! j =
              fdiv (fmul (fmul (fmul (alpha s ! t ! i) (A s ! i ! j)) (beta s ! Suc t ! j))
                      (Z s ! Suc t ! j)) (pobs s)) \<and>
         (fin_vec (alpha s ! t) \<and> fin_mat (A s) \<and> fin_vec (beta s ! Suc t) \<and>
          fin_vec (Z s ! Suc t) \<and> is_fin (pobs s) \<and> rv (pobs s) \<noteq> 0 \<longrightarrow>
            fsum (concat (xi s' ! t)) =
              Fin ((\<Sum>i\<leftarrow>[0..<N_of s]. \<Sum>j\<leftarrow>[0..<N_of s].
                      rv (alpha s ! t ! i) * rv (A s ! i ! j) * rv (beta s ! Suc t ! j) *
                      rv (Z s ! Suc t ! j)) / rv (pobs s)) \<and>
            (fsum (concat (xi s' ! t)) = Fin 1 \<longleftrightarrow>
               (\<Sum>i\<leftarrow>[0..<N_of s]. \<Sum>j\<leftarrow>[0..<N_of s].
                      rv (alpha s ! t ! i) * rv (A s ! i ! j) * rv (beta s ! Suc t ! j) *
                      rv (Z s ! Suc t ! j)) = rv (pobs s)))"
proof (intro allI impI conjI)
  fix i j assume "i < N_of s" "j < N_of s"
  then show "xi s' ! t ! i ! j =
      fdiv (fmul (fmul (fmul (alpha s ! t ! i) (A s ! i ! j)) (beta s ! Suc t ! j))
              (Z s ! Suc t ! j)) (pobs s)"
    using learn_xi_nth[OF assms(1,3)] by (simp add: learn_fields(2)[OF assms(2)])
next
  assume fin: "fin_vec (alpha s ! t) \<and> fin_mat (A s) \<and> fin_vec (beta s ! Suc t) \<and>
          fin_vec (Z s ! Suc t) \<and> is_fin (pobs s) \<and> rv (pobs s) \<noteq> 0"
  let ?n = "N_of s"
  let ?p = "rv (pobs s)"
  let ?f = "\<lambda>i j. rv (alpha s ! t ! i) * rv (A s ! i ! j) * rv (beta s ! Suc t ! j) *
                      rv (Z s ! Suc t ! j)"
  have t: "t < T_of s" using assms(3) by simp
  have p: "pobs s = Fin ?p" using fin by (intro is_fin_rv) simp
  have tl: "t < length (learn_xi s)" using learn_xi_length[OF assms(1)] assms(3) by simp
  have sh: "is_shape ?n ?n (learn_xi s ! t)"
    using learn_xi_shape[OF assms(1)] tl by simp
  have entry: "learn_xi s ! t ! i ! j = Fin (?f i j / ?p)" if "i < ?n" "j < ?n" for i j
  proof -
    have a: "alpha s ! t ! i = Fin (rv (alpha s ! t ! i))"
      using fin that t shapes_okD(9)[OF assms(1)] by (intro fin_vec_nth) simp_all
    have b: "beta s ! Suc t ! j = Fin (rv (beta s ! Suc t ! j))"
      using fin that assms(3) shapes_okD(10)[OF assms(1)] by (intro fin_vec_nth) simp_all
    have z: "Z s ! Suc t ! j = Fin (rv (Z s ! Suc t ! j))"
      using fin that assms(3) shapes_okD(8)[OF assms(1)] by (intro fin_vec_nth) simp_all
    have "fin_vec (A s ! i)"
      using fin that shapes_okD(1)[OF assms(1)] by (intro fin_mat_nth) simp_all
    then have m: "A s ! i ! j = Fin (rv (A s ! i ! j))"
      using that shapes_okD(6)[OF assms(1)] by (intro fin_vec_nth) simp_all
    have "learn_xi s ! t ! i ! j =
        fdiv (fmul (fmul (fmul (Fin (rv (alpha s ! t ! i))) (Fin (rv (A s ! i ! j))))
                (Fin (rv (beta s ! Suc t ! j)))) (Fin (rv (Z s ! Suc t ! j)))) (Fin ?p)"
      using learn_xi_nth[OF assms(1,3) that] a b z m p by simp
    then show ?thesis using fin by simp
  qed
  have rows: "learn_xi s ! t = map (\<lambda>i. map (\<lambda>j. Fin (?f i j / ?p)) [0..<?n]) [0..<?n]"
  proof (rule nth_equalityI)
    show "length (learn_xi s ! t) = length (map (\<lambda>i. map (\<lambda>j. Fin (?f i j / ?p)) [0..<?n]) [0..<?n])"
      using sh by (simp add: is_shape_def)
  next
    fix i assume "i < length (learn_xi s ! t)"
    then have i: "i < ?n" using sh by (simp add: is_shape_def)
    then have "length (learn_xi s ! t ! i) = ?n" using sh by (simp add: is_shape_def)
    then have "learn_xi s ! t ! i = map (\<lambda>j. Fin (?f i j / ?p)) [0..<?n]"
      using entry[OF i] by (intro nth_equalityI) simp_all
    then show "learn_xi s ! t ! i = map (\<lambda>i. map (\<lambda>j. Fin (?f i j / ?p)) [0..<?n]) [0..<?n] ! i"
      using i by simp
  qed
  show sum: "fsum (concat (xi s' ! t)) = Fin ((\<Sum>i\<leftarrow>[0..<?n]. \<Sum>j\<leftarrow>[0..<?n]. ?f i j) / ?p)"
    unfolding learn_fields(2)[OF assms(2)] rows fsum_concat_Fin sum_list_div_const ..
  show "fsum (concat (xi s' ! t)) = Fin 1 \<longleftrightarrow> (\<Sum>i\<leftarrow>[0..<?n]. \<Sum>j\<leftarrow>[0..<?n]. ?f i j) = ?p"
    unfolding sum using fin by auto
qed

theorem learn_xi_scaled_by_pobs_witness:
  "shapes_ok toy_plain \<and> learn toy_plain = Inr (projr (learn toy_plain)) \<and>
   Suc 0 < T_of toy_plain \<and>
   xi (projr (learn toy_plain)) ! 0 ! 0 ! 1 =
     fdiv (fmul (fmul (fmul (Fin (1/2)) (Fin (1/2))) (Fin 1)) (Fin (1/2))) (Fin (3/16)) \<and>
   fsum (concat (xi (projr (learn toy_plain)) ! 0)) = Fin 1"
proof -
  have t: "Suc 0 < T_of toy_plain" by (simp add: T_of_def toy_defs)
  note th = learn_xi_scaled_by_pobs[OF toy_plain_shapes toy_plain_learn t]
  have n: "0 < N_of toy_plain" "1 < N_of toy_plain"
    by (simp_all add: N_of_def toy_defs)
  have fin: "fin_vec (alpha toy_plain ! 0) \<and> fin_mat (A toy_plain) \<and>
      fin_vec (beta toy_plain ! Suc 0) \<and> fin_vec (Z toy_plain ! Suc 0) \<and>
      is_fin (pobs toy_plain) \<and> rv (pobs toy_plain) \<noteq> 0"
    by (simp add: fin_vec_def fin_mat_def toy_defs)
  have a: "xi (projr (learn toy_plain)) ! 0 ! 0 ! 1 =
      fdiv (fmul (fmul (fmul (alpha toy_plain ! 0 ! 0) (A toy_plain ! 0 ! 1))
        (beta toy_plain ! Suc 0 ! 1)) (Z toy_plain ! Suc 0 ! 1)) (pobs toy_plain)"
    using th n by blast
  have b: "fsum (concat (xi (projr (learn toy_plain)) ! 0)) =
      Fin ((\<Sum>i\<leftarrow>[0..<N_of toy_plain]. \<Sum>j\<leftarrow>[0..<N_of toy_plain].
              rv (alpha toy_plain ! 0 ! i) * rv (A toy_plain ! i ! j) *
              rv (beta toy_plain ! Suc 0 ! j) * rv (Z toy_plain ! Suc 0 ! j)) / rv (pobs toy_plain))"
    using th fin by blast
  have "xi (projr (learn toy_plain)) ! 0 ! 0 ! 1 =
     fdiv (fmul (fmul (fmul (Fin (1/2)) (Fin (1/2))) (Fin 1)) (Fin (1/2))) (Fin (3/16))"
    unfolding a by (simp add: toy_defs)
  moreover have "fsum (concat (xi (projr (learn toy_plain)) ! 0)) = Fin 1"
    unfolding b by (simp add: N_of_def toy_defs upt_rec)
  ultimately show ?thesis using toy_plain_shapes toy_plain_learn t by simp
qed

text \<open>
  The claim's normalisation fails. On \<open>toy_zero\<close> (\<open>pobs = 0\<close>) the only entry of \<open>xi[0]\<close> is
  \<open>0/0\<close>, a NaN, and so is the sum of the slice; on \<open>toy_scaled\<close> (the statistics of the
  specification's scaled passes, \<open>pobs = 3/16\<close>) the slice sums to \<open>4/3\<close>.
\<close>

theorem learn_xi_counterexample:
  "learn toy_zero = Inr (projr (learn toy_zero)) \<and>
   xi (projr (learn toy_zero)) ! 0 = [[NaN]] \<and>
   fsum (concat (xi (projr (learn toy_zero)) ! 0)) = NaN \<and>
   learn toy_scaled = Inr (projr (learn toy_scaled)) \<and>
   fsum (concat (xi (projr (learn toy_scaled)) ! 0)) = Fin (4/3)"
  by (simp add: learn_eval toy_defs)

lemma sum_list_indicator:
  "(\<Sum>k\<leftarrow>[0..<m]. if k0 = k then a else 0) = (if k0 < m then (a::real) else 0)"
  by (induction m) auto

lemma fmul_zero_fin: "is_fin x \<Longrightarrow> fmul x (Fin 0) = Fin 0"
  by (cases x) simp_all

lemma fmul_zero_not_fin: "\<not> is_fin x \<Longrightarrow> fmul x (Fin 0) = NaN"
  by (cases x) simp_all

section \<open>The emission statistics\<close>

text \<open>
  Claim C10, as the code has it. \<open>psi[t][i][k]\<close> is \<open>gamma[t][i]\<close> multiplied by the boolean
  \<open>O[t] = k\<close>. It equals \<open>gamma[t][i]\<close> when \<open>O[t] = k\<close>. When \<open>gamma[t][i]\<close> is finite it is \<open>0\<close>
  for every other \<open>k\<close>, and summing over the symbol axis recovers \<open>gamma[t][i]\<close> when \<open>O[t]\<close> is
  a symbol in \<open>[0, M)\<close>. (A \<open>gamma[t][i]\<close> that is not finite multiplies with \<open>False\<close> to NaN.)
\<close>

theorem learn_psi_one_hot:
  assumes "shapes_ok s" and "learn s = Inr s'" and "t < T_of s" and "i < N_of s"
  shows "(\<forall>k<M_of s. Obs s ! t = int k \<longrightarrow> psi s' ! t ! i ! k = gamma s' ! t ! i) \<and>
         (is_fin (gamma s' ! t ! i) \<longrightarrow>
            (\<forall>k<M_of s. Obs s ! t \<noteq> int k \<longrightarrow> psi s' ! t ! i ! k = Fin 0) \<and>
            (0 \<le> Obs s ! t \<and> Obs s ! t < int (M_of s) \<longrightarrow>
               fsum (psi s' ! t ! i) = gamma s' ! t ! i))"
proof -
  let ?g = "learn_gamma s"
  let ?m = "M_of s"
  have gs: "is_shape (T_of s) (N_of s) ?g" using learn_gamma_shape[OF assms(1)] .
  have tg: "t < length ?g" and ig: "i < length (?g ! t)" and tO: "t < length (Obs s)"
    using gs assms(3,4) by (simp_all add: is_shape_def T_of_def)
  have entry: "psi s' ! t ! i ! k = fmul (?g ! t ! i) (Fin (if Obs s ! t = int k then 1 else 0))"
    if "k < ?m" for k
    unfolding learn_fields(3)[OF assms(2)] using learn_psi_nth[OF tg tO ig that] .
  have row: "psi s' ! t ! i = map (\<lambda>k. fmul (?g ! t ! i) (Fin (if Obs s ! t = int k then 1 else 0))) [0..<?m]"
    unfolding learn_fields(3)[OF assms(2)] using tg tO ig by (simp add: learn_psi_def)
  have g': "gamma s' = ?g" using learn_fields(1)[OF assms(2)] .
  show ?thesis
  proof (intro conjI allI impI)
    fix k assume "k < ?m" "Obs s ! t = int k"
    then show "psi s' ! t ! i ! k = gamma s' ! t ! i"
      using entry by (simp add: g' fmul_one_right)
  next
    fix k assume "is_fin (gamma s' ! t ! i)" "k < ?m" "Obs s ! t \<noteq> int k"
    then show "psi s' ! t ! i ! k = Fin 0"
      using entry by (simp add: g' fmul_zero_fin)
  next
    assume fin: "is_fin (gamma s' ! t ! i)" and o: "0 \<le> Obs s ! t \<and> Obs s ! t < int ?m"
    obtain a where a: "?g ! t ! i = Fin a" using fin by (auto simp: g' is_fin_conv)
    have eq: "(Obs s ! t = int k) = (nat (Obs s ! t) = k)" for k using o by auto
    have "psi s' ! t ! i = map (\<lambda>k. Fin (if nat (Obs s ! t) = k then a else 0)) [0..<?m]"
      unfolding row a eq by simp
    then have "fsum (psi s' ! t ! i) = Fin (\<Sum>k\<leftarrow>[0..<?m]. if nat (Obs s ! t) = k then a else 0)"
      by (simp add: fsum_map_Fin)
    also have "\<dots> = Fin a"
    proof -
      have "nat (Obs s ! t) < ?m" using o by linarith
      then show ?thesis by (simp add: sum_list_indicator)
    qed
    finally show "fsum (psi s' ! t ! i) = gamma s' ! t ! i" by (simp add: g' a)
  qed
qed

theorem learn_psi_one_hot_witness:
  "shapes_ok toy_plain \<and> learn toy_plain = Inr (projr (learn toy_plain)) \<and>
   0 < T_of toy_plain \<and> 1 < N_of toy_plain \<and>
   psi (projr (learn toy_plain)) ! 0 ! 1 ! 0 = Fin (1/3) \<and>
   psi (projr (learn toy_plain)) ! 0 ! 1 ! 1 = Fin 0 \<and>
   fsum (psi (projr (learn toy_plain)) ! 0 ! 1) = Fin (1/3)"
proof -
  have t: "0 < T_of toy_plain" and i: "1 < N_of toy_plain"
    by (simp_all add: T_of_def N_of_def toy_defs)
  note th = learn_psi_one_hot[OF toy_plain_shapes toy_plain_learn t i]
  have g: "gamma (projr (learn toy_plain)) ! 0 ! 1 = Fin (1/3)"
    by (simp add: learn_eval toy_defs)
  have m: "0 < M_of toy_plain" "1 < M_of toy_plain" by (simp_all add: M_of_def toy_defs)
  have o: "Obs toy_plain ! 0 = int 0" "Obs toy_plain ! 0 \<noteq> int 1"
    "0 \<le> Obs toy_plain ! 0 \<and> Obs toy_plain ! 0 < int (M_of toy_plain)"
    by (simp_all add: M_of_def toy_defs)
  have fin: "is_fin (gamma (projr (learn toy_plain)) ! 0 ! 1)" unfolding g by simp
  have "psi (projr (learn toy_plain)) ! 0 ! 1 ! 0 = gamma (projr (learn toy_plain)) ! 0 ! 1"
    using th m(1) o(1) by blast
  moreover have "psi (projr (learn toy_plain)) ! 0 ! 1 ! 1 = Fin 0"
    using th m(2) o(2) fin by blast
  moreover have "fsum (psi (projr (learn toy_plain)) ! 0 ! 1) = gamma (projr (learn toy_plain)) ! 0 ! 1"
    using th o(3) fin by blast
  ultimately show ?thesis using toy_plain_shapes toy_plain_learn t i g by simp
qed

text \<open>
  The claim fails where \<open>gamma\<close> is not finite. On \<open>toy_zero\<close> the sequence is \<open>[1, 1]\<close> and
  \<open>pobs = 0\<close>: \<open>gamma[0][0]\<close> is \<open>0/0\<close>, and \<open>psi[0][0][0]\<close>, where \<open>O[0] \<noteq> 0\<close>, is NaN and not \<open>0\<close>.
\<close>

theorem learn_psi_counterexample:
  "learn toy_zero = Inr (projr (learn toy_zero)) \<and>
   Obs toy_zero ! 0 = 1 \<and>
   gamma (projr (learn toy_zero)) ! 0 ! 0 = NaN \<and>
   psi (projr (learn toy_zero)) ! 0 ! 0 ! 0 = NaN \<and>
   psi (projr (learn toy_zero)) ! 0 ! 0 ! 0 \<noteq> Fin 0"
  by (simp add: learn_eval toy_defs upt_rec)

lemma mix_not_fin: "0 < w \<Longrightarrow> \<not> is_fin c \<Longrightarrow> \<not> is_fin (fadd (fmul (Fin v) a) (fmul (Fin w) c))"
  by (simp add: fadd_is_fin fmul_pos_is_fin)

lemma fadd_NaN_right: "fadd x NaN = NaN"
  by (cases x) simp_all

section \<open>Hidden states without posterior mass\<close>

text \<open>
  Claim C6, as the code has it. The specification wants the rows of \<open>A\<close> and \<open>B\<close> of a hidden
  state \<open>i\<close> left unchanged when \<open>\<Sum>\<^sub>t gamma[t][i]\<close> is \<open>0\<close>. \<^verbatim>\<open>learn\<close> has no such guard: it
  divides by the sum. If the sum of \<open>gamma[t][i]\<close> over the first \<open>T - 1\<close> time steps is \<open>0\<close>,
  every entry of row \<open>i\<close> of \<open>A\<close> is overwritten with a value that is not finite (NaN or an
  infinity); if the sum over all \<open>T\<close> time steps is \<open>0\<close>, so is every entry of row \<open>i\<close> of \<open>B\<close>.
\<close>

theorem learn_zero_mass_row:
  assumes "shapes_ok s" and "learn s = Inr s'" and "i < N_of s"
  shows "(fsum (map (\<lambda>t. gamma s' ! t ! i) [0..<T_of s - 1]) = Fin 0 \<longrightarrow>
            (\<forall>j<N_of s. \<not> is_fin (A s' ! i ! j))) \<and>
         (fsum (map (\<lambda>t. gamma s' ! t ! i) [0..<T_of s]) = Fin 0 \<longrightarrow>
            (\<forall>k<M_of s. \<not> is_fin (B s' ! i ! k)))"
proof (intro conjI impI allI)
  fix j assume z: "fsum (map (\<lambda>t. gamma s' ! t ! i) [0..<T_of s - 1]) = Fin 0" and j: "j < N_of s"
  show "\<not> is_fin (A s' ! i ! j)"
    unfolding learn_A_nth[OF assms(1,2,3) j]
    using z by (simp add: learn_fields(1)[OF assms(2)] mix_not_fin fdiv_zero_not_fin)
next
  fix k assume z: "fsum (map (\<lambda>t. gamma s' ! t ! i) [0..<T_of s]) = Fin 0" and k: "k < M_of s"
  show "\<not> is_fin (B s' ! i ! k)"
    unfolding learn_B_nth[OF assms(1,2,3) k]
    using z by (simp add: learn_fields(1)[OF assms(2)] mix_not_fin fdiv_zero_not_fin)
qed

lemma toy_unvisited_learn: "learn toy_unvisited = Inr (projr (learn toy_unvisited))"
  by (simp add: learn_eval toy_defs)

lemma toy_unvisited_shapes: "shapes_ok toy_unvisited"
  by (simp add: shape_eval toy_defs)

theorem learn_zero_mass_row_witness:
  "shapes_ok toy_unvisited \<and> learn toy_unvisited = Inr (projr (learn toy_unvisited)) \<and>
   1 < N_of toy_unvisited \<and>
   fsum (map (\<lambda>t. gamma (projr (learn toy_unvisited)) ! t ! 1) [0..<T_of toy_unvisited - 1]) = Fin 0 \<and>
   fsum (map (\<lambda>t. gamma (projr (learn toy_unvisited)) ! t ! 1) [0..<T_of toy_unvisited]) = Fin 0 \<and>
   \<not> is_fin (A (projr (learn toy_unvisited)) ! 1 ! 0) \<and>
   \<not> is_fin (B (projr (learn toy_unvisited)) ! 1 ! 1)"
proof -
  have i: "1 < N_of toy_unvisited" by (simp add: N_of_def toy_defs)
  note th = learn_zero_mass_row[OF toy_unvisited_shapes toy_unvisited_learn i]
  have g: "gamma (projr (learn toy_unvisited)) = [[Fin 1, Fin 0], [Fin 1, Fin 0]]"
    by (simp add: learn_eval toy_defs)
  have z1: "fsum (map (\<lambda>t. gamma (projr (learn toy_unvisited)) ! t ! 1) [0..<T_of toy_unvisited - 1]) = Fin 0"
    unfolding g by (simp add: T_of_def toy_defs fsum_def)
  have z2: "fsum (map (\<lambda>t. gamma (projr (learn toy_unvisited)) ! t ! 1) [0..<T_of toy_unvisited]) = Fin 0"
    unfolding g by (simp add: T_of_def toy_defs fsum_def upt_rec)
  have n: "0 < N_of toy_unvisited" "1 < M_of toy_unvisited"
    by (simp_all add: N_of_def M_of_def toy_defs)
  have "\<not> is_fin (A (projr (learn toy_unvisited)) ! 1 ! 0)" using th z1 n by blast
  moreover have "\<not> is_fin (B (projr (learn toy_unvisited)) ! 1 ! 1)" using th z2 n by blast
  ultimately show ?thesis using toy_unvisited_shapes toy_unvisited_learn i z1 z2 by simp
qed

text \<open>
  The claim fails as stated. In \<open>toy_unvisited\<close> the second hidden state has \<open>gamma[t][1] = 0\<close> at
  both time steps; \<^verbatim>\<open>learn\<close> replaces its rows \<open>[1, 0]\<close> of \<open>A\<close> and \<open>[1/2, 1/2]\<close> of \<open>B\<close> by NaN.
\<close>

theorem learn_zero_mass_counterexample:
  "learn toy_unvisited = Inr (projr (learn toy_unvisited)) \<and>
   gamma (projr (learn toy_unvisited)) = [[Fin 1, Fin 0], [Fin 1, Fin 0]] \<and>
   A toy_unvisited ! 1 = [Fin 1, Fin 0] \<and>
   A (projr (learn toy_unvisited)) ! 1 = [NaN, NaN] \<and>
   B toy_unvisited ! 1 = [Fin (1/2), Fin (1/2)] \<and>
   B (projr (learn toy_unvisited)) ! 1 = [NaN, NaN]"
  by (simp add: learn_eval toy_defs upt_rec)

section \<open>A sequence of probability zero\<close>

lemma fmul_bool_not_fin: "\<not> is_fin x \<Longrightarrow> \<not> is_fin (fmul x (Fin (if b then 1 else 0)))"
  by (cases x) simp_all

lemma fsum_not_fin: "x \<in> set xs \<Longrightarrow> \<not> is_fin x \<Longrightarrow> \<not> is_fin (fsum xs)"
  by (auto simp: fsum_is_fin fin_vec_def)

text \<open>
  Claim C7, as the code has it. When \<open>pobs\<close> is \<open>0\<close>, \<^verbatim>\<open>np.log(pobs)\<close> is \<open>-inf\<close>, as the claim
  says. But \<^verbatim>\<open>learn\<close> is not a no-op then: it divides by \<open>pobs\<close> without a guard, no entry of
  \<open>gamma\<close> is finite, every entry of \<open>A\<close> and of \<open>B\<close> becomes NaN, and no entry of \<open>Pi\<close> stays
  finite.
\<close>

theorem learn_zero_pobs:
  assumes "shapes_ok s" and "learn s = Inr s'" and "pobs s = Fin 0"
  shows "np_log (pobs s) = MInf \<and>
         (\<forall>t<T_of s. \<forall>i<N_of s. \<not> is_fin (gamma s' ! t ! i)) \<and>
         (\<forall>i<N_of s. \<forall>j<N_of s. A s' ! i ! j = NaN) \<and>
         (\<forall>i<N_of s. \<forall>k<M_of s. B s' ! i ! k = NaN) \<and>
         (\<forall>i<N_of s. \<not> is_fin (Pi s' ! i))"
proof -
  let ?g = "learn_gamma s"
  have T: "0 < T_of s" using learn_Inr_T[OF assms(1,2)] .
  have g: "\<not> is_fin (?g ! t ! i)" if "t < T_of s" "i < N_of s" for t i
    using learn_gamma_nth[OF assms(1) that] assms(3) by (simp add: fdiv_zero_not_fin)
  have x: "\<not> is_fin (learn_xi s ! t ! i ! j)" if "Suc t < T_of s" "i < N_of s" "j < N_of s" for t i j
    using learn_xi_nth[OF assms(1) that] assms(3) by (simp add: fdiv_zero_not_fin)
  have gs: "is_shape (T_of s) (N_of s) ?g" using learn_gamma_shape[OF assms(1)] .
  have p: "\<not> is_fin (learn_psi (M_of s) (Obs s) ?g ! t ! i ! k)"
    if "t < T_of s" "i < N_of s" "k < M_of s" for t i k
  proof -
    have "learn_psi (M_of s) (Obs s) ?g ! t ! i ! k =
        fmul (?g ! t ! i) (Fin (if Obs s ! t = int k then 1 else 0))"
      using gs that by (intro learn_psi_nth) (simp_all add: is_shape_def T_of_def)
    then show ?thesis using g[OF that(1,2)] fmul_bool_not_fin by simp
  qed
  have gsum: "\<not> is_fin (fsum (map (\<lambda>t. ?g ! t ! i) [0..<n]))" if "i < N_of s" "0 < n" "n \<le> T_of s" for i n
  proof (rule fsum_not_fin)
    show "?g ! 0 ! i \<in> set (map (\<lambda>t. ?g ! t ! i) [0..<n])" using that by auto
    show "\<not> is_fin (?g ! 0 ! i)" using g[OF T that(1)] .
  qed
  have A_NaN: "A s' ! i ! j = NaN" if "i < N_of s" "j < N_of s" for i j
  proof (cases "T_of s - 1 = 0")
    case True
    then show ?thesis
      unfolding learn_A_nth[OF assms(1,2) that] by (simp add: fsum_Nil fadd_NaN_right)
  next
    case False
    then have 1: "Suc 0 < T_of s" by simp
    have "\<not> is_fin (fsum (map (\<lambda>t. learn_xi s ! t ! i ! j) [0..<T_of s - 1]))"
    proof (rule fsum_not_fin)
      show "learn_xi s ! 0 ! i ! j \<in> set (map (\<lambda>t. learn_xi s ! t ! i ! j) [0..<T_of s - 1])"
        using 1 by auto
      show "\<not> is_fin (learn_xi s ! 0 ! i ! j)" using x[OF 1 that] .
    qed
    moreover have "\<not> is_fin (fsum (map (\<lambda>t. ?g ! t ! i) [0..<T_of s - 1]))"
      using gsum[OF that(1), of "T_of s - 1"] 1 by simp
    ultimately show ?thesis
      unfolding learn_A_nth[OF assms(1,2) that] by (simp add: fdiv_not_fin_NaN fadd_NaN_right)
  qed
  have B_NaN: "B s' ! i ! k = NaN" if "i < N_of s" "k < M_of s" for i k
  proof -
    have "\<not> is_fin (fsum (map (\<lambda>t. learn_psi (M_of s) (Obs s) ?g ! t ! i ! k) [0..<T_of s]))"
    proof (rule fsum_not_fin)
      show "learn_psi (M_of s) (Obs s) ?g ! 0 ! i ! k
          \<in> set (map (\<lambda>t. learn_psi (M_of s) (Obs s) ?g ! t ! i ! k) [0..<T_of s])"
        using T by auto
      show "\<not> is_fin (learn_psi (M_of s) (Obs s) ?g ! 0 ! i ! k)" using p[OF T that] .
    qed
    moreover have "\<not> is_fin (fsum (map (\<lambda>t. ?g ! t ! i) [0..<T_of s]))"
      using gsum[OF that(1) T] by simp
    ultimately show ?thesis
      unfolding learn_B_nth[OF assms(1,2) that] by (simp add: fdiv_not_fin_NaN fadd_NaN_right)
  qed
  have Pi_nf: "\<not> is_fin (Pi s' ! i)" if "i < N_of s" for i
    unfolding learn_Pi_nth[OF assms(1,2) that] using g[OF T that] by (simp add: mix_not_fin)
  show ?thesis
    using assms(3) g A_NaN B_NaN Pi_nf by (simp add: learn_fields(1)[OF assms(2)])
qed

lemma toy_zero_learn: "learn toy_zero = Inr (projr (learn toy_zero))"
  by (simp add: learn_eval toy_defs)

lemma toy_zero_shapes: "shapes_ok toy_zero"
  by (simp add: shape_eval toy_defs)

theorem learn_zero_pobs_witness:
  "shapes_ok toy_zero \<and> learn toy_zero = Inr (projr (learn toy_zero)) \<and> pobs toy_zero = Fin 0 \<and>
   np_log (pobs toy_zero) = MInf \<and>
   \<not> is_fin (gamma (projr (learn toy_zero)) ! 1 ! 0) \<and>
   A (projr (learn toy_zero)) ! 0 ! 0 = NaN \<and>
   B (projr (learn toy_zero)) ! 0 ! 1 = NaN \<and>
   \<not> is_fin (Pi (projr (learn toy_zero)) ! 0)"
proof -
  have p: "pobs toy_zero = Fin 0" by (simp add: toy_defs)
  note th = learn_zero_pobs[OF toy_zero_shapes toy_zero_learn p]
  have n: "0 < N_of toy_zero" "1 < M_of toy_zero" "1 < T_of toy_zero"
    by (simp_all add: N_of_def M_of_def T_of_def toy_defs)
  have "np_log (pobs toy_zero) = MInf" using th by blast
  moreover have "\<not> is_fin (gamma (projr (learn toy_zero)) ! 1 ! 0)" using th n by blast
  moreover have "A (projr (learn toy_zero)) ! 0 ! 0 = NaN" using th n by blast
  moreover have "B (projr (learn toy_zero)) ! 0 ! 1 = NaN" using th n by blast
  moreover have "\<not> is_fin (Pi (projr (learn toy_zero)) ! 0)" using th n by blast
  ultimately show ?thesis using toy_zero_shapes toy_zero_learn p by simp
qed

text \<open>
  The claim fails as stated. On \<open>toy_zero\<close>, where \<open>pobs = 0\<close>, the logarithm is \<open>-inf\<close>, but
  \<^verbatim>\<open>learn\<close> turns \<open>A = [[1]]\<close>, \<open>B = [[1, 0]]\<close> and \<open>Pi = [1]\<close> into arrays of NaN.
\<close>

theorem learn_zero_pobs_counterexample:
  "pobs toy_zero = Fin 0 \<and> np_log (pobs toy_zero) = MInf \<and>
   learn toy_zero = Inr (projr (learn toy_zero)) \<and>
   A toy_zero = [[Fin 1]] \<and> A (projr (learn toy_zero)) = [[NaN]] \<and>
   B toy_zero = [[Fin 1, Fin 0]] \<and> B (projr (learn toy_zero)) = [[NaN, NaN]] \<and>
   Pi toy_zero = [Fin 1] \<and> Pi (projr (learn toy_zero)) = [NaN]"
  by (simp add: learn_eval toy_defs upt_rec)

section \<open>Dimensions and row sums\<close>

lemma sum_list_swap:
  "(\<Sum>i\<leftarrow>xs. \<Sum>j\<leftarrow>ys. f i j) = (\<Sum>j\<leftarrow>ys. \<Sum>i\<leftarrow>xs. (f i j :: real))"
  by (induction xs) (simp_all add: sum_list_addf)

lemma row_sum_rv:
  assumes "fsum r = Fin c" and "length r = n"
  shows "fin_vec r" and "(\<Sum>j\<leftarrow>[0..<n]. rv (r ! j)) = c"
proof -
  show f: "fin_vec r" using assms(1) fsum_is_fin[of r] by simp
  have "map rv r = map (\<lambda>j. rv (r ! j)) [0..<n]"
    using assms(2) by (intro nth_equalityI) simp_all
  then show "(\<Sum>j\<leftarrow>[0..<n]. rv (r ! j)) = c"
    using fsum_fin[OF f] assms(1) by simp
qed

lemma learn_gamma_rv:
  assumes "shapes_ok s" "fin_mat (alpha s)" "fin_mat (beta s)" "is_fin (pobs s)"
    "rv (pobs s) \<noteq> 0" "t < T_of s" "i < N_of s"
  shows "learn_gamma s ! t ! i = Fin (rv (alpha s ! t ! i) * rv (beta s ! t ! i) / rv (pobs s))"
proof -
  have p: "pobs s = Fin (rv (pobs s))" using assms(4) by (rule is_fin_rv)
  have "fin_vec (alpha s ! t)" using assms(2,6) shapes_okD(4)[OF assms(1)] by (intro fin_mat_nth) simp_all
  then have a: "alpha s ! t ! i = Fin (rv (alpha s ! t ! i))"
    using assms(6,7) shapes_okD(9)[OF assms(1)] by (intro fin_vec_nth) simp_all
  have "fin_vec (beta s ! t)" using assms(3,6) shapes_okD(5)[OF assms(1)] by (intro fin_mat_nth) simp_all
  then have b: "beta s ! t ! i = Fin (rv (beta s ! t ! i))"
    using assms(6,7) shapes_okD(10)[OF assms(1)] by (intro fin_vec_nth) simp_all
  have "learn_gamma s ! t ! i =
      fdiv (fmul (Fin (rv (alpha s ! t ! i))) (Fin (rv (beta s ! t ! i)))) (Fin (rv (pobs s)))"
    using learn_gamma_nth[OF assms(1,6,7)] a b p by simp
  then show ?thesis using assms(5) by simp
qed

lemma learn_xi_rv:
  assumes "shapes_ok s" "fin_mat (alpha s)" "fin_mat (beta s)" "fin_mat (Z s)" "fin_mat (A s)"
    "is_fin (pobs s)" "rv (pobs s) \<noteq> 0" "Suc t < T_of s" "i < N_of s" "j < N_of s"
  shows "learn_xi s ! t ! i ! j =
     Fin (rv (alpha s ! t ! i) * rv (A s ! i ! j) * rv (beta s ! Suc t ! j) * rv (Z s ! Suc t ! j)
          / rv (pobs s))"
proof -
  have t: "t < T_of s" using assms(8) by simp
  have p: "pobs s = Fin (rv (pobs s))" using assms(6) by (rule is_fin_rv)
  have "fin_vec (alpha s ! t)" using assms(2) t shapes_okD(4)[OF assms(1)] by (intro fin_mat_nth) simp_all
  then have a: "alpha s ! t ! i = Fin (rv (alpha s ! t ! i))"
    using t assms(9) shapes_okD(9)[OF assms(1)] by (intro fin_vec_nth) simp_all
  have "fin_vec (beta s ! Suc t)" using assms(3,8) shapes_okD(5)[OF assms(1)] by (intro fin_mat_nth) simp_all
  then have b: "beta s ! Suc t ! j = Fin (rv (beta s ! Suc t ! j))"
    using assms(8,10) shapes_okD(10)[OF assms(1)] by (intro fin_vec_nth) simp_all
  have "fin_vec (Z s ! Suc t)" using assms(4,8) shapes_okD(3)[OF assms(1)] by (intro fin_mat_nth) simp_all
  then have z: "Z s ! Suc t ! j = Fin (rv (Z s ! Suc t ! j))"
    using assms(8,10) shapes_okD(8)[OF assms(1)] by (intro fin_vec_nth) simp_all
  have "fin_vec (A s ! i)" using assms(5,9) shapes_okD(1)[OF assms(1)] by (intro fin_mat_nth) simp_all
  then have m: "A s ! i ! j = Fin (rv (A s ! i ! j))"
    using assms(9,10) shapes_okD(6)[OF assms(1)] by (intro fin_vec_nth) simp_all
  have "learn_xi s ! t ! i ! j =
      fdiv (fmul (fmul (fmul (Fin (rv (alpha s ! t ! i))) (Fin (rv (A s ! i ! j))))
              (Fin (rv (beta s ! Suc t ! j)))) (Fin (rv (Z s ! Suc t ! j)))) (Fin (rv (pobs s)))"
    using learn_xi_nth[OF assms(1,8,9,10)] a b z m p by simp
  then show ?thesis using assms(7) by simp
qed

lemma mix_row_sum:
  assumes "length row = n"
    and "\<And>j. j < n \<Longrightarrow> row ! j = fadd (fmul (Fin v) (Fin (r j))) (fmul (Fin w) (fdiv (Fin (c j)) (Fin d)))"
    and "d \<noteq> 0" and "(\<Sum>j\<leftarrow>[0..<n]. r j) = 1" and "(\<Sum>j\<leftarrow>[0..<n]. c j) = d" and "v + w = 1"
  shows "fsum row = Fin 1"
proof -
  have "row = map (\<lambda>j. Fin (v * r j + w * (c j / d))) [0..<n]"
    using assms(1,2,3) by (intro nth_equalityI) simp_all
  then have "fsum row = Fin (\<Sum>j\<leftarrow>[0..<n]. v * r j + w * (c j / d))"
    by (simp add: fsum_map_Fin)
  also have "(\<Sum>j\<leftarrow>[0..<n]. v * r j + w * (c j / d)) =
      v * (\<Sum>j\<leftarrow>[0..<n]. r j) + w * ((\<Sum>j\<leftarrow>[0..<n]. c j) / d)"
    by (simp add: sum_list_addf sum_list_const_mult sum_list_div_const)
  also have "\<dots> = 1" using assms(3,4,5,6) by simp
  finally show ?thesis .
qed


lemma learn_unchanged:
  assumes "learn s = Inr s'"
  shows "Obs s' = Obs s" "Z s' = Z s" "alpha s' = alpha s" "beta s' = beta s" "pobs s' = pobs s"
  using assms by (cases "learn_gamma s"; simp add: learn_def Let_def; fastforce)+

lemma learn_shapes:
  assumes "shapes_ok s" and "learn s = Inr s'"
  shows "N_of s' = N_of s" and "M_of s' = M_of s" and "shapes_ok s'"
proof -
  have T: "0 < T_of s" using learn_Inr_T[OF assms] .
  have g0: "length (learn_gamma s ! 0) = N_of s"
    using learn_gamma_shape[OF assms(1)] T by (simp add: is_shape_def)
  show N: "N_of s' = N_of s"
    using g0 by (simp add: N_of_def learn_fields(6)[OF assms(2)] mix_vec_length)
  have As: "is_shape (N_of s) (N_of s) (A s')"
    unfolding learn_fields(4)[OF assms(2)]
    using assms(1) cand_A_shape[OF assms(1)] by (intro mix_mat_shape) (simp_all add: shapes_ok_def)
  have Bs: "is_shape (N_of s) (M_of s) (B s')"
    unfolding learn_fields(5)[OF assms(2)]
    using assms(1) cand_B_shape[OF assms(1)] by (intro mix_mat_shape) (simp_all add: shapes_ok_def)
  have Bs0: "is_shape (N_of s) (M_of s) (B s)" using assms(1) by (simp add: shapes_ok_def)
  show M: "M_of s' = M_of s"
  proof (cases "B s'")
    case Nil
    then have "N_of s = 0" using Bs by (simp add: is_shape_def)
    then have "B s = []" using Bs0 by (simp add: is_shape_def)
    then show ?thesis using Nil by (simp add: M_of_def)
  next
    case (Cons r rs)
    then show ?thesis using Bs by (simp add: M_of_def is_shape_def)
  qed
  have T': "T_of s' = T_of s" by (simp add: T_of_def learn_unchanged(1)[OF assms(2)])
  show "shapes_ok s'"
    using assms(1) As Bs by (simp add: shapes_ok_def N M T' learn_unchanged[OF assms(2)])
qed

lemma rows_sum_oneI:
  assumes "length X = n" and "\<And>i. i < n \<Longrightarrow> fsum (X ! i) = Fin 1"
  shows "rows_sum_one X"
  unfolding rows_sum_one_def using assms by (auto simp: in_set_conv_nth)

lemma rows_sum_oneD: "rows_sum_one X \<Longrightarrow> i < length X \<Longrightarrow> fsum (X ! i) = Fin 1"
  by (simp add: rows_sum_one_def)

lemma fsum_map_eq_Fin:
  assumes "\<And>t. t \<in> set ts \<Longrightarrow> f t = Fin (h t)"
  shows "fsum (map f ts) = Fin (\<Sum>t\<leftarrow>ts. h t)"
proof -
  have "map f ts = map (\<lambda>t. Fin (h t)) ts" using assms by (intro map_cong) simp_all
  then show ?thesis by (simp only: fsum_map_Fin)
qed

lemma rows_sum_one_fin: "rows_sum_one X \<Longrightarrow> fin_mat X"
proof -
  assume r: "rows_sum_one X"
  have "fin_vec v" if "v \<in> set X" for v
  proof -
    have "is_fin (fsum v)" using r that by (simp add: rows_sum_one_def)
    then show ?thesis by (simp add: fsum_is_fin)
  qed
  then show ?thesis by (simp add: fin_mat_def)
qed

lemma learn_keeps_rows:
  assumes sh: "shapes_ok s" and l: "learn s = Inr s'"
    and rA: "rows_sum_one (A s)" and rB: "rows_sum_one (B s)" and rPi: "fsum (Pi s) = Fin 1"
    and pc: "posterior_consistent s"
    and sym: "\<forall>ob \<in> set (Obs s). 0 \<le> ob \<and> ob < int (M_of s)"
  shows "rows_sum_one (A s')" and "rows_sum_one (B s')" and "fsum (Pi s') = Fin 1"
proof -
  let ?n = "N_of s" and ?m = "M_of s" and ?T = "T_of s"
  let ?p = "rv (pobs s)"
  define a where "a i j = rv (A s ! i ! j)" for i j
  define b where "b i k = rv (B s ! i ! k)" for i k
  define al where "al t i = rv (alpha s ! t ! i)" for t i
  define be where "be t i = rv (beta s ! t ! i)" for t i
  define z where "z t i = rv (Z s ! t ! i)" for t i
  define g where "g t i = al t i * be t i / ?p" for t i
  define x where "x t i j = al t i * a i j * be (Suc t) j * z (Suc t) j / ?p" for t i j
  define ps where "ps t i k = (if Obs s ! t = int k then g t i else 0)" for t i k
  have T: "0 < ?T" using learn_Inr_T[OF sh l] .
  have vw: "(0.9::real) + 0.1 = 1" by simp
  have fin: "fin_mat (Z s)" "fin_mat (alpha s)" "fin_mat (beta s)" "is_fin (pobs s)" and p0: "?p \<noteq> 0"
    using pc by (simp_all add: posterior_consistent_def)
  have c0: "(\<Sum>i\<leftarrow>[0..<?n]. al 0 i * be 0 i) = ?p"
    using pc by (simp add: posterior_consistent_def al_def be_def)
  have rec: "(\<Sum>j\<leftarrow>[0..<?n]. a i j * be (Suc t) j * z (Suc t) j) = be t i"
    if "Suc t < ?T" "i < ?n" for t i
    using pc that by (simp add: posterior_consistent_def a_def be_def z_def)
  have mass1: "(\<Sum>t\<leftarrow>[0..<?T - 1]. al t i * be t i) \<noteq> 0"
    and mass2: "(\<Sum>t\<leftarrow>[0..<?T]. al t i * be t i) \<noteq> 0" if "i < ?n" for i
    using pc that by (simp_all add: posterior_consistent_def al_def be_def)
  have lenA: "length (A s) = ?n" and lenB: "length (B s) = ?n"
    using shapes_okD(1,2)[OF sh] by simp_all
  have finA: "fin_mat (A s)" using rA by (rule rows_sum_one_fin)
  have A_entry: "A s ! i ! j = Fin (a i j)" if "i < ?n" "j < ?n" for i j
    unfolding a_def using finA that lenA shapes_okD(6)[OF sh]
    by (intro fin_vec_nth fin_mat_nth) simp_all
  have A_row: "(\<Sum>j\<leftarrow>[0..<?n]. a i j) = 1" if "i < ?n" for i
    unfolding a_def using that lenA shapes_okD(6)[OF sh] rows_sum_oneD[OF rA]
    by (intro row_sum_rv(2)) simp_all
  have finB: "fin_mat (B s)" using rB by (rule rows_sum_one_fin)
  have B_entry: "B s ! i ! k = Fin (b i k)" if "i < ?n" "k < ?m" for i k
    unfolding b_def using finB that lenB shapes_okD(7)[OF sh]
    by (intro fin_vec_nth fin_mat_nth) simp_all
  have B_row: "(\<Sum>k\<leftarrow>[0..<?m]. b i k) = 1" if "i < ?n" for i
    unfolding b_def using that lenB shapes_okD(7)[OF sh] rows_sum_oneD[OF rB]
    by (intro row_sum_rv(2)) simp_all
  have Pi_fin: "fin_vec (Pi s)" and Pi_sum: "(\<Sum>i\<leftarrow>[0..<?n]. rv (Pi s ! i)) = 1"
    using row_sum_rv[OF rPi, of ?n] by (simp_all add: N_of_def)
  have G: "learn_gamma s ! t ! i = Fin (g t i)" if "t < ?T" "i < ?n" for t i
    unfolding g_def al_def be_def using learn_gamma_rv[OF sh fin(2,3,4) p0 that] .
  have X: "learn_xi s ! t ! i ! j = Fin (x t i j)" if "Suc t < ?T" "i < ?n" "j < ?n" for t i j
    unfolding x_def al_def be_def a_def z_def
    using learn_xi_rv[OF sh fin(2,3,1) finA fin(4) p0 that] .
  have gs: "is_shape ?T ?n (learn_gamma s)" using learn_gamma_shape[OF sh] .
  have P: "learn_psi ?m (Obs s) (learn_gamma s) ! t ! i ! k = Fin (ps t i k)"
    if "t < ?T" "i < ?n" "k < ?m" for t i k
  proof -
    have "learn_psi ?m (Obs s) (learn_gamma s) ! t ! i ! k =
        fmul (learn_gamma s ! t ! i) (Fin (if Obs s ! t = int k then 1 else 0))"
      using gs that by (intro learn_psi_nth) (simp_all add: is_shape_def T_of_def)
    then show ?thesis by (simp add: G[OF that(1,2)] ps_def)
  qed
  have Gsum: "fsum (map (\<lambda>t. learn_gamma s ! t ! i) [0..<n]) = Fin (\<Sum>t\<leftarrow>[0..<n]. g t i)"
    if "i < ?n" "n \<le> ?T" for i n
    using that G by (intro fsum_map_eq_Fin) simp
  have g_sum: "(\<Sum>t\<leftarrow>[0..<n]. g t i) = (\<Sum>t\<leftarrow>[0..<n]. al t i * be t i) / ?p" for n i
    unfolding g_def by (rule sum_list_div_const)
  have xrow: "(\<Sum>j\<leftarrow>[0..<?n]. x t i j) = g t i" if "Suc t < ?T" "i < ?n" for t i
  proof -
    have "(\<Sum>j\<leftarrow>[0..<?n]. x t i j) = (\<Sum>j\<leftarrow>[0..<?n]. al t i * (a i j * be (Suc t) j * z (Suc t) j)) / ?p"
      unfolding x_def by (simp add: sum_list_div_const mult.assoc)
    also have "\<dots> = al t i * (\<Sum>j\<leftarrow>[0..<?n]. a i j * be (Suc t) j * z (Suc t) j) / ?p"
      by (simp add: sum_list_const_mult)
    also have "\<dots> = g t i" by (simp add: rec[OF that] g_def)
    finally show ?thesis .
  qed
  have psrow: "(\<Sum>k\<leftarrow>[0..<?m]. ps t i k) = g t i" if "t < ?T" for t i
  proof -
    have o: "0 \<le> Obs s ! t \<and> Obs s ! t < int ?m" using sym that by (simp add: T_of_def)
    then have eq: "(Obs s ! t = int k) = (nat (Obs s ! t) = k)" for k by auto
    have "nat (Obs s ! t) < ?m" using o by linarith
    then show ?thesis unfolding ps_def eq by (simp add: sum_list_indicator)
  qed
  show "rows_sum_one (A s')"
  proof (rule rows_sum_oneI[of _ ?n])
    show "length (A s') = ?n"
      using learn_shapes(3)[OF sh l] learn_shapes(1)[OF sh l] by (simp add: shapes_ok_def is_shape_def)
  next
    fix i assume i: "i < ?n"
    let ?d = "\<Sum>t\<leftarrow>[0..<?T - 1]. g t i"
    have len: "length (A s' ! i) = ?n"
      using learn_shapes(3)[OF sh l] learn_shapes(1)[OF sh l] i by (simp add: shapes_ok_def is_shape_def)
    have d0: "?d \<noteq> 0" using mass1[OF i] p0 by (simp add: g_sum)
    have ent: "A s' ! i ! j = fadd (fmul (Fin 0.9) (Fin (a i j)))
        (fmul (Fin 0.1) (fdiv (Fin (\<Sum>t\<leftarrow>[0..<?T - 1]. x t i j)) (Fin ?d)))" if "j < ?n" for j
    proof -
      have "fsum (map (\<lambda>t. learn_xi s ! t ! i ! j) [0..<?T - 1]) = Fin (\<Sum>t\<leftarrow>[0..<?T - 1]. x t i j)"
        using X i that by (intro fsum_map_eq_Fin) simp
      then show ?thesis
        unfolding learn_A_nth[OF sh l i that] by (simp add: Gsum[OF i] A_entry[OF i that])
    qed
    have csum: "(\<Sum>j\<leftarrow>[0..<?n]. \<Sum>t\<leftarrow>[0..<?T - 1]. x t i j) = ?d"
    proof -
      have "(\<Sum>j\<leftarrow>[0..<?n]. \<Sum>t\<leftarrow>[0..<?T - 1]. x t i j) = (\<Sum>t\<leftarrow>[0..<?T - 1]. \<Sum>j\<leftarrow>[0..<?n]. x t i j)"
        by (rule sum_list_swap)
      also have "\<dots> = ?d"
        using xrow i by (intro arg_cong[where f = sum_list] map_cong) simp_all
      finally show ?thesis .
    qed
    show "fsum (A s' ! i) = Fin 1"
      using len ent d0 A_row[OF i] csum vw by (rule mix_row_sum)
  qed
  show "rows_sum_one (B s')"
  proof (rule rows_sum_oneI[of _ ?n])
    show "length (B s') = ?n"
      using learn_shapes(3)[OF sh l] learn_shapes(1)[OF sh l] by (simp add: shapes_ok_def is_shape_def)
  next
    fix i assume i: "i < ?n"
    let ?d = "\<Sum>t\<leftarrow>[0..<?T]. g t i"
    have len: "length (B s' ! i) = ?m"
      using learn_shapes[OF sh l] i by (simp add: shapes_ok_def is_shape_def)
    have d0: "?d \<noteq> 0" using mass2[OF i] p0 by (simp add: g_sum)
    have ent: "B s' ! i ! k = fadd (fmul (Fin 0.9) (Fin (b i k)))
        (fmul (Fin 0.1) (fdiv (Fin (\<Sum>t\<leftarrow>[0..<?T]. ps t i k)) (Fin ?d)))" if "k < ?m" for k
    proof -
      have "fsum (map (\<lambda>t. learn_psi ?m (Obs s) (learn_gamma s) ! t ! i ! k) [0..<?T]) =
          Fin (\<Sum>t\<leftarrow>[0..<?T]. ps t i k)"
        using P i that by (intro fsum_map_eq_Fin) simp
      then show ?thesis
        unfolding learn_B_nth[OF sh l i that] by (simp add: Gsum[OF i] B_entry[OF i that])
    qed
    have csum: "(\<Sum>k\<leftarrow>[0..<?m]. \<Sum>t\<leftarrow>[0..<?T]. ps t i k) = ?d"
    proof -
      have "(\<Sum>k\<leftarrow>[0..<?m]. \<Sum>t\<leftarrow>[0..<?T]. ps t i k) = (\<Sum>t\<leftarrow>[0..<?T]. \<Sum>k\<leftarrow>[0..<?m]. ps t i k)"
        by (rule sum_list_swap)
      also have "\<dots> = ?d"
        using psrow by (intro arg_cong[where f = sum_list] map_cong) simp_all
      finally show ?thesis .
    qed
    show "fsum (B s' ! i) = Fin 1"
      using len ent d0 B_row[OF i] csum vw by (rule mix_row_sum)
  qed
  show "fsum (Pi s') = Fin 1"
  proof -
    have len: "length (Pi s') = ?n" using learn_shapes(1)[OF sh l] by (simp add: N_of_def)
    have ent: "Pi s' ! i = Fin (0.9 * rv (Pi s ! i) + 0.1 * g 0 i)" if ilt: "i < ?n" for i
    proof -
      have "is_fin (Pi s ! i)" using Pi_fin ilt by (simp add: fin_vec_def N_of_def)
      then obtain q where q: "Pi s ! i = Fin q" by (auto simp: is_fin_conv)
      show ?thesis
        unfolding learn_Pi_nth[OF sh l ilt] by (simp add: G[OF T ilt] q)
    qed
    have "Pi s' = map (\<lambda>i. Fin (0.9 * rv (Pi s ! i) + 0.1 * g 0 i)) [0..<?n]"
      using len ent by (intro nth_equalityI) simp_all
    then have "fsum (Pi s') = Fin (\<Sum>i\<leftarrow>[0..<?n]. 0.9 * rv (Pi s ! i) + 0.1 * g 0 i)"
      by (simp only: fsum_map_Fin)
    also have "(\<Sum>i\<leftarrow>[0..<?n]. 0.9 * rv (Pi s ! i) + 0.1 * g 0 i) =
        0.9 * (\<Sum>i\<leftarrow>[0..<?n]. rv (Pi s ! i)) + 0.1 * ((\<Sum>i\<leftarrow>[0..<?n]. al 0 i * be 0 i) / ?p)"
      unfolding g_def by (simp add: sum_list_addf sum_list_const_mult sum_list_div_const)
    also have "\<dots> = 1" using Pi_sum c0 p0 by simp
    finally show ?thesis .
  qed
qed


text \<open>
  Claim C5, as the code has it. \<^verbatim>\<open>learn\<close> never changes the dimensions: \<open>N\<close>, \<open>M\<close> and the
  shapes of \<open>A\<close>, \<open>B\<close>, \<open>Pi\<close> are the same after it. Rows that sum to 1 are preserved when the
  statistics it is given are posterior-consistent (finite, \<open>pobs \<noteq> 0\<close>,
  \<open>\<Sum>\<^sub>i alpha[0][i]\<cdot>beta[0][i] = pobs\<close>, \<open>beta\<close> satisfying the unscaled backward recursion, every
  hidden state with posterior mass) and the symbols are in \<open>[0, M)\<close>; they are not preserved
  for every input.
\<close>

theorem learn_preserves_dims_and_rows:
  assumes "shapes_ok s" and "learn s = Inr s'"
  shows "N_of s' = N_of s \<and> M_of s' = M_of s \<and> shapes_ok s' \<and>
         (rows_sum_one (A s) \<and> rows_sum_one (B s) \<and> fsum (Pi s) = Fin 1 \<and>
          posterior_consistent s \<and> (\<forall>ob \<in> set (Obs s). 0 \<le> ob \<and> ob < int (M_of s)) \<longrightarrow>
            rows_sum_one (A s') \<and> rows_sum_one (B s') \<and> fsum (Pi s') = Fin 1)"
  using learn_shapes[OF assms] learn_keeps_rows[OF assms] by blast

theorem learn_preserves_dims_and_rows_witness:
  "shapes_ok toy_plain \<and> learn toy_plain = Inr (projr (learn toy_plain)) \<and>
   rows_sum_one (A toy_plain) \<and> rows_sum_one (B toy_plain) \<and> fsum (Pi toy_plain) = Fin 1 \<and>
   posterior_consistent toy_plain \<and>
   N_of (projr (learn toy_plain)) = 2 \<and> M_of (projr (learn toy_plain)) = 2 \<and>
   rows_sum_one (A (projr (learn toy_plain))) \<and> rows_sum_one (B (projr (learn toy_plain))) \<and>
   fsum (Pi (projr (learn toy_plain))) = Fin 1"
proof -
  note th = learn_preserves_dims_and_rows[OF toy_plain_shapes toy_plain_learn]
  have r: "rows_sum_one (A toy_plain)" "rows_sum_one (B toy_plain)" "fsum (Pi toy_plain) = Fin 1"
    by (simp_all add: rows_sum_one_def fsum_def toy_defs)
  have pc: "posterior_consistent toy_plain"
    by (simp add: posterior_consistent_def fin_mat_def fin_vec_def N_of_def T_of_def toy_defs upt_rec)
  have sym: "\<forall>ob \<in> set (Obs toy_plain). 0 \<le> ob \<and> ob < int (M_of toy_plain)"
    by (simp add: M_of_def toy_defs)
  have nm: "N_of toy_plain = 2" "M_of toy_plain = 2" by (simp_all add: N_of_def M_of_def toy_defs)
  have "N_of (projr (learn toy_plain)) = 2" "M_of (projr (learn toy_plain)) = 2"
    using th nm by simp_all
  moreover have "rows_sum_one (A (projr (learn toy_plain))) \<and>
      rows_sum_one (B (projr (learn toy_plain))) \<and> fsum (Pi (projr (learn toy_plain))) = Fin 1"
    using th r pc sym by blast
  ultimately show ?thesis using toy_plain_shapes toy_plain_learn r pc by simp
qed

text \<open>
  The claim fails as stated. With the one-symbol sequence of \<open>toy_short\<close> the slice
  \<^verbatim>\<open>gamma[:-1]\<close> is empty, its sum is \<open>0\<close>, and \<^verbatim>\<open>learn\<close> turns every entry of \<open>A\<close> into \<open>0/0\<close>.
  With the statistics of the specification's scaled passes (\<open>toy_scaled\<close>) the rows of \<open>A\<close>
  sum to \<open>37/40\<close> after the step and \<open>Pi\<close> sums to \<open>43/30\<close>.
\<close>

theorem learn_rows_counterexample:
  "rows_sum_one (A toy_short) \<and> rows_sum_one (B toy_short) \<and> fsum (Pi toy_short) = Fin 1 \<and>
   learn toy_short = Inr (projr (learn toy_short)) \<and>
   A (projr (learn toy_short)) = [[NaN, NaN], [NaN, NaN]] \<and>
   \<not> rows_sum_one (A (projr (learn toy_short))) \<and>
   rows_sum_one (A toy_scaled) \<and> rows_sum_one (B toy_scaled) \<and> fsum (Pi toy_scaled) = Fin 1 \<and>
   learn toy_scaled = Inr (projr (learn toy_scaled)) \<and>
   map fsum (A (projr (learn toy_scaled))) = [Fin (37/40), Fin (37/40)] \<and>
   fsum (Pi (projr (learn toy_scaled))) = Fin (43/30)"
  by (simp add: learn_eval rows_sum_one_def toy_defs upt_rec)

section \<open>Runs of the generator\<close>

lemma prob_vec_nonempty: "prob_vec v \<Longrightarrow> 0 < length v"
  by (cases v) (simp_all add: prob_vec_def fsum_Nil)

lemma gen_loop_cong:
  "A h' = A h \<Longrightarrow> B h' = B h \<Longrightarrow> Pi h' = Pi h \<Longrightarrow>
   gen_loop ch h' k s acc g = gen_loop ch h k s acc g"
  by (induction k arbitrary: s acc g)
     (simp_all add: N_of_def M_of_def split: sum.split prod.split)

lemma gen_loop_ok:
  assumes ch: "choice_ok ch"
    and shA: "is_shape (N_of h) (N_of h) (A h)" and shB: "is_shape (N_of h) (M_of h) (B h)"
    and pA: "\<forall>r \<in> set (A h). prob_vec r" and pB: "\<forall>r \<in> set (B h). prob_vec r"
  shows "s < N_of h \<Longrightarrow>
     \<exists>out g'. gen_loop ch h k s acc g = Inr (acc @ out, g') \<and> length out = k \<and>
        (\<forall>ob \<in> set out. 0 \<le> ob \<and> ob < int (M_of h)) \<and> emits ch h s g out g'"
proof (induction k arbitrary: s acc g)
  case 0
  show ?case by (auto intro: emits_done)
next
  case (Suc k)
  have sB: "s < length (B h)" and sA: "s < length (A h)"
    using Suc.prems shA shB by (simp_all add: is_shape_def)
  have rowB: "length (B h ! s) = M_of h" "prob_vec (B h ! s)"
    using sB shB pB by (simp_all add: is_shape_def)
  have rowA: "length (A h ! s) = N_of h" "prob_vec (A h ! s)"
    using sA shA pA by (simp_all add: is_shape_def)
  have M: "0 < M_of h" using prob_vec_nonempty[OF rowB(2)] rowB(1) by simp
  obtain ob g1 where e: "ch g (M_of h) (B h ! s) = Inr (ob, g1)" and ob: "ob < M_of h"
    using ch M rowB unfolding choice_ok_def by blast
  obtain s' g2 where a: "ch g1 (N_of h) (A h ! s) = Inr (s', g2)" and s': "s' < N_of h"
    using ch Suc.prems rowA unfolding choice_ok_def by (metis gr_implies_not_zero gr_zeroI)
  obtain out g' where rest: "gen_loop ch h k s' (acc @ [int ob]) g2 = Inr ((acc @ [int ob]) @ out, g')"
    and len: "length out = k" and rng: "\<forall>x \<in> set out. 0 \<le> x \<and> x < int (M_of h)"
    and em: "emits ch h s' g2 out g'"
    using Suc.IH[OF s'] by blast
  have "gen_loop ch h (Suc k) s acc g = Inr (acc @ (int ob # out), g')"
    using sB sA e a rest by simp
  moreover have "emits ch h s g (int ob # out) g'"
    using Suc.prems e a em by (rule emits_step)
  ultimately show ?case using len rng ob by fastforce
qed

text \<open>
  Claim C8. Given a model whose \<open>Pi\<close> and rows of \<open>A\<close> and \<open>B\<close> are probability vectors, and a
  \<^verbatim>\<open>np.random.choice\<close> that honours its contract, \<^verbatim>\<open>generate\<close> called with length \<open>l \<ge> 0\<close>
  does not raise and returns exactly \<open>l\<close> symbols, each in \<open>[0, M)\<close> (none for \<open>l = 0\<close>). The
  initial state is drawn from \<open>Pi\<close>; at each step a symbol is drawn from row \<open>s\<close> of \<open>B\<close> and the
  next state from row \<open>s\<close> of \<open>A\<close>. The object is returned unchanged, and the result is the same
  for any object with the same \<open>A\<close>, \<open>B\<close> and \<open>Pi\<close>.
\<close>

theorem generate_emits_l_symbols:
  assumes "choice_ok ch"
    and "is_shape (N_of h) (N_of h) (A h)" and "is_shape (N_of h) (M_of h) (B h)"
    and "prob_vec (Pi h)" and "\<forall>r \<in> set (A h). prob_vec r" and "\<forall>r \<in> set (B h). prob_vec r"
    and "0 \<le> l"
  shows "\<exists>out g'. generate ch h l g = Inr (h, out, g') \<and> int (length out) = l \<and>
           (l = 0 \<longrightarrow> out = []) \<and>
           (\<forall>ob \<in> set out. 0 \<le> ob \<and> ob < int (M_of h)) \<and>
           (\<exists>s0 g1. ch g (N_of h) (Pi h) = Inr (s0, g1) \<and> emits ch h s0 g1 out g') \<and>
           (\<forall>h'. A h' = A h \<and> B h' = B h \<and> Pi h' = Pi h \<longrightarrow>
                 generate ch h' l g = Inr (h', out, g'))"
proof -
  have N: "0 < N_of h" using prob_vec_nonempty[OF assms(4)] by (simp add: N_of_def)
  obtain s0 g1 where c: "ch g (N_of h) (Pi h) = Inr (s0, g1)" and s0: "s0 < N_of h"
    using assms(1,4) N unfolding choice_ok_def by (metis N_of_def)
  obtain out g' where lp: "gen_loop ch h (nat l) s0 [] g1 = Inr ([] @ out, g')"
    and len: "length out = nat l" and rng: "\<forall>ob \<in> set out. 0 \<le> ob \<and> ob < int (M_of h)"
    and em: "emits ch h s0 g1 out g'"
    using gen_loop_ok[OF assms(1,2,3,5,6) s0] by blast
  have gen: "generate ch h l g = Inr (h, out, g')"
    using c lp by (simp add: generate_def)
  have same: "generate ch h' l g = Inr (h', out, g')"
    if "A h' = A h \<and> B h' = B h \<and> Pi h' = Pi h" for h'
    using that c lp gen_loop_cong[of h' h ch "nat l" s0 "[]" g1]
    by (simp add: generate_def N_of_def)
  show ?thesis
    using gen len rng em c same assms(7) by (intro exI[of _ out] exI[of _ g']) auto
qed

lemma counter_choice_ok: "choice_ok counter_choice"
  by (simp add: choice_ok_def counter_choice_def)

theorem generate_emits_l_symbols_witness:
  "choice_ok counter_choice \<and>
   is_shape (N_of toy_plain) (N_of toy_plain) (A toy_plain) \<and>
   is_shape (N_of toy_plain) (M_of toy_plain) (B toy_plain) \<and>
   prob_vec (Pi toy_plain) \<and> (0::int) \<le> 3 \<and>
   generate counter_choice toy_plain 3 0 = Inr (toy_plain, [1, 1, 1], 7) \<and>
   (\<exists>out g'. generate counter_choice toy_plain 3 0 = Inr (toy_plain, out, g') \<and>
      int (length out) = 3 \<and>
      (\<exists>s0 g1. counter_choice 0 (N_of toy_plain) (Pi toy_plain) = Inr (s0, g1) \<and>
         emits counter_choice toy_plain s0 g1 out g'))"
proof -
  have shA: "is_shape (N_of toy_plain) (N_of toy_plain) (A toy_plain)"
    and shB: "is_shape (N_of toy_plain) (M_of toy_plain) (B toy_plain)"
    by (simp_all add: is_shape_def N_of_def M_of_def toy_defs)
  have pPi: "prob_vec (Pi toy_plain)"
    and pA: "\<forall>r \<in> set (A toy_plain). prob_vec r" and pB: "\<forall>r \<in> set (B toy_plain). prob_vec r"
    by (simp_all add: prob_vec_def fsum_def toy_defs)
  have l: "(0::int) \<le> 3" by simp
  have nm: "N_of toy_plain = 2" "M_of toy_plain = 2" "length (A toy_plain) = 2"
    "length (B toy_plain) = 2"
    by (simp_all add: N_of_def M_of_def toy_defs)
  have l3: "nat 3 = Suc (Suc (Suc 0))" by simp
  have ev: "generate counter_choice toy_plain 3 0 = Inr (toy_plain, [1, 1, 1], 7)"
    unfolding generate_def l3 by (simp add: counter_choice_def nm)
  from generate_emits_l_symbols[OF counter_choice_ok shA shB pPi pA pB l, of 0]
  have "\<exists>out g'. generate counter_choice toy_plain 3 0 = Inr (toy_plain, out, g') \<and>
      int (length out) = 3 \<and>
      (\<exists>s0 g1. counter_choice 0 (N_of toy_plain) (Pi toy_plain) = Inr (s0, g1) \<and>
         emits counter_choice toy_plain s0 g1 out g')"
    by blast
  then show ?thesis using counter_choice_ok shA shB pPi l ev by blast
qed

section \<open>The log-sum inequality\<close>

text \<open>
  For nonnegative weights \<open>w\<close> and values \<open>v\<close> that are positive wherever \<open>w\<close> is, the weighted
  sum of \<open>ln (v / w)\<close> is at most \<open>W * ln (V / W)\<close> for the totals \<open>W\<close> and \<open>V\<close>: concavity of the
  logarithm, used below in the form \<open>ln x \<le> x - 1\<close>.
\<close>

lemma log_sum_ineq:
  fixes w v :: "nat \<Rightarrow> real"
  assumes fin: "finite I"
    and nn: "\<And>j. j \<in> I \<Longrightarrow> 0 \<le> w j \<and> 0 \<le> v j \<and> (0 < w j \<longrightarrow> 0 < v j)"
    and W: "0 < sum w I"
  shows "0 < sum v I"
    and "(\<Sum>j\<in>I. w j * (ln (v j) - ln (w j))) \<le> sum w I * (ln (sum v I) - ln (sum w I))"
proof -
  let ?W = "sum w I" and ?V = "sum v I"
  obtain j0 where j0: "j0 \<in> I" "0 < w j0"
  proof (rule ccontr)
    assume "\<not> thesis"
    then have "\<And>j. j \<in> I \<Longrightarrow> w j = 0" using nn that by (metis order_le_less)
    then have "?W = 0" by simp
    then show False using W by simp
  qed
  have "v j0 \<le> ?V" using fin j0 nn by (intro member_le_sum) auto
  moreover have "0 < v j0" using nn j0 by blast
  ultimately show V: "0 < ?V" by linarith
  have tm: "w j * (ln (v j) - ln (w j)) - w j * (ln ?V - ln ?W) \<le> v j * ?W / ?V - w j" if "j \<in> I" for j
  proof (cases "0 < w j")
    case True
    then have vj: "0 < v j" using nn that by blast
    let ?x = "v j * ?W / (w j * ?V)"
    have x: "0 < ?x" using True vj W V by simp
    have "ln ?x \<le> ?x - 1" using x by (rule ln_le_minus_one)
    moreover have "ln ?x = ln (v j) - ln (w j) - (ln ?V - ln ?W)"
      using True vj W V by (simp add: ln_mult ln_div)
    ultimately have "w j * (ln (v j) - ln (w j) - (ln ?V - ln ?W)) \<le> w j * (?x - 1)"
      using True by (simp add: mult_left_mono)
    also have "\<dots> = v j * ?W / ?V - w j" using True V by (simp add: field_simps)
    finally show ?thesis by (simp add: right_diff_distrib)
  next
    case False
    then have "w j = 0" using nn that by (metis order_le_less)
    moreover have "0 \<le> v j * ?W / ?V" using nn that W V by simp
    ultimately show ?thesis by simp
  qed
  have "(\<Sum>j\<in>I. w j * (ln (v j) - ln (w j))) - ?W * (ln ?V - ln ?W)
      = (\<Sum>j\<in>I. w j * (ln (v j) - ln (w j)) - w j * (ln ?V - ln ?W))"
    by (simp add: sum_subtractf sum_distrib_right)
  also have "\<dots> \<le> (\<Sum>j\<in>I. v j * ?W / ?V - w j)"
    using tm by (rule sum_mono)
  also have "\<dots> = ?V * ?W / ?V - ?W"
    by (simp add: sum_subtractf sum_distrib_right sum_divide_distrib)
  also have "\<dots> = 0" using V by simp
  finally show "(\<Sum>j\<in>I. w j * (ln (v j) - ln (w j))) \<le> ?W * (ln ?V - ln ?W)" by simp
qed

section \<open>Identities of the unscaled variables\<close>

text \<open>
  The forward and backward variables are nonnegative, \<open>\<Sum>i. au t i * bu t d i\<close> is the row sum of
  \<open>au\<close> at time \<open>t + d\<close>, and \<open>xu\<close> has \<open>gu\<close> as its marginals. The backward induction bounds
  \<open>emR\<close> by the log-sum inequality at every step.
\<close>

lemma au_nonneg:
  assumes "\<And>i. 0 \<le> p i" "\<And>i j. 0 \<le> a i j" "\<And>t i. 0 \<le> z t i"
  shows "0 \<le> au N p a z t i"
  by (induction t arbitrary: i) (simp_all add: assms sum_nonneg)

lemma bu_nonneg:
  assumes "\<And>i j. 0 \<le> a i j" "\<And>t i. 0 \<le> z t i"
  shows "0 \<le> bu N a z t d i"
  by (induction d arbitrary: t i) (simp_all add: assms sum_nonneg)

lemma au_step_sum:
  "(\<Sum>i<N. au N p a z t i * a i j) * z (Suc t) j = au N p a z (Suc t) j"
  by simp

lemma forward_backward:
  "(\<Sum>i<N. au N p a z t i * bu N a z t d i) = (\<Sum>i<N. au N p a z (t + d) i)"
proof (induction d arbitrary: t)
  case 0
  show ?case by simp
next
  case (Suc d)
  have "(\<Sum>i<N. au N p a z t i * bu N a z t (Suc d) i)
      = (\<Sum>i<N. \<Sum>j<N. au N p a z t i * a i j * z (Suc t) j * bu N a z (Suc t) d j)"
    by (simp add: sum_distrib_left mult.assoc)
  also have "\<dots> = (\<Sum>j<N. \<Sum>i<N. au N p a z t i * a i j * z (Suc t) j * bu N a z (Suc t) d j)"
    by (rule sum.swap)
  also have "\<dots> = (\<Sum>j<N. au N p a z (Suc t) j * bu N a z (Suc t) d j)"
  proof (rule sum.cong[OF refl])
    fix j
    have "(\<Sum>i<N. au N p a z t i * a i j * z (Suc t) j * bu N a z (Suc t) d j)
        = (\<Sum>i<N. au N p a z t i * a i j) * z (Suc t) j * bu N a z (Suc t) d j"
      by (simp add: sum_distrib_right)
    then show "(\<Sum>i<N. au N p a z t i * a i j * z (Suc t) j * bu N a z (Suc t) d j)
        = au N p a z (Suc t) j * bu N a z (Suc t) d j"
      by (simp add: mult.commute)
  qed
  also have "\<dots> = (\<Sum>i<N. au N p a z (Suc t + d) i)" by (rule Suc.IH)
  finally show ?case by simp
qed

lemma em_backward_bound:
  fixes N :: nat and p :: "nat \<Rightarrow> real" and a z a' z' :: "nat \<Rightarrow> nat \<Rightarrow> real"
  defines "al \<equiv> au N p a z" and "be \<equiv> bu N a z" and "be' \<equiv> bu N a' z'"
  assumes nn: "\<And>i. 0 \<le> p i" "\<And>i j. 0 \<le> a i j" "\<And>t i. 0 \<le> z t i"
    and nn': "\<And>i j. 0 \<le> a' i j" "\<And>t i. 0 \<le> z' t i"
    and supp: "\<And>t i j. i < N \<Longrightarrow> j < N \<Longrightarrow> Suc t < T \<Longrightarrow>
        0 < al t i * a i j * z (Suc t) j * be (Suc t) (T - 2 - t) j \<Longrightarrow> 0 < a' i j \<and> 0 < z' (Suc t) j"
  shows "t + d + 1 = T \<Longrightarrow>
     (\<forall>i<N. 0 < al t i \<and> 0 < be t d i \<longrightarrow> 0 < be' t d i) \<and>
     emR N p a z a' z' t d \<le> (\<Sum>i<N. al t i * be t d i * (ln (be' t d i) - ln (be t d i)))"
proof (induction d arbitrary: t)
  case 0
  show ?case by (simp add: be_def be'_def)
next
  case (Suc d)
  have T: "Suc t + d + 1 = T" using Suc.prems by simp
  note IH = Suc.IH[OF T]
  have d_eq: "T - 2 - t = d" using Suc.prems by simp
  have al0: "0 \<le> al t i" for t i unfolding al_def by (rule au_nonneg[OF nn])
  have be0: "0 \<le> be t d i" for t d i unfolding be_def by (rule bu_nonneg[OF nn(2,3)])
  have be0': "0 \<le> be' t d i" for t d i unfolding be'_def by (rule bu_nonneg[OF nn'])
  define w where "w i j = a i j * z (Suc t) j * be (Suc t) d j" for i j
  define v where "v i j = a' i j * z' (Suc t) j * be' (Suc t) d j" for i j
  define c where "c i j = ln (a' i j) - ln (a i j) + (ln (z' (Suc t) j) - ln (z (Suc t) j))" for i j
  define D where "D j = ln (be' (Suc t) d j) - ln (be (Suc t) d j)" for j
  have W: "be t (Suc d) i = (\<Sum>j<N. w i j)" for i by (simp add: be_def w_def)
  have V: "be' t (Suc d) i = (\<Sum>j<N. v i j)" for i by (simp add: be'_def v_def)
  have w0: "0 \<le> w i j" for i j unfolding w_def using nn be0 by simp
  have v0: "0 \<le> v i j" for i j unfolding v_def using nn' be0' by simp
  have al_next: "al t i * a i j * z (Suc t) j \<le> al (Suc t) j" if "i < N" for i j
  proof -
    have "al t i * a i j \<le> (\<Sum>i<N. al t i * a i j)"
      using that al0 nn by (intro member_le_sum) auto
    then have "al t i * a i j * z (Suc t) j \<le> (\<Sum>i<N. al t i * a i j) * z (Suc t) j"
      using nn by (intro mult_right_mono) auto
    then show ?thesis by (simp add: al_def mult.commute)
  qed
  have pos: "0 < v i j \<and> ln (v i j) - ln (w i j) = c i j + D j"
    if "i < N" "j < N" "0 < al t i" "0 < w i j" for i j
  proof -
    have aij: "0 < a i j" and zj: "0 < z (Suc t) j" and bj: "0 < be (Suc t) d j"
      using that(4) nn be0[of "Suc t" d j] unfolding w_def
      by (metis mult_eq_0_iff order_le_less order_less_irrefl)+
    have x: "0 < al t i * a i j * z (Suc t) j * be (Suc t) (T - 2 - t) j"
      using that(3) aij zj bj d_eq by simp
    have st: "Suc t < T" using Suc.prems by simp
    have a'z': "0 < a' i j \<and> 0 < z' (Suc t) j" using supp[OF that(1,2) st x] .
    have "0 < al t i * a i j * z (Suc t) j" using that(3) aij zj by simp
    then have "0 < al (Suc t) j" using al_next[OF that(1), of j] by linarith
    then have bj': "0 < be' (Suc t) d j" using IH bj that(2) by blast
    have "0 < v i j" unfolding v_def using a'z' bj' by simp
    moreover have "ln (v i j) - ln (w i j) = c i j + D j"
      unfolding v_def w_def c_def D_def using a'z' bj' aij zj bj by (simp add: ln_mult)
    ultimately show ?thesis by simp
  qed
  have row: "0 < be' t (Suc d) i \<and>
      (\<Sum>j<N. w i j * (c i j + D j)) \<le> be t (Suc d) i * (ln (be' t (Suc d) i) - ln (be t (Suc d) i))"
    if i: "i < N" and ai: "0 < al t i" and bi: "0 < be t (Suc d) i" for i
  proof -
    have cond: "\<And>j. j \<in> {..<N} \<Longrightarrow> 0 \<le> w i j \<and> 0 \<le> v i j \<and> (0 < w i j \<longrightarrow> 0 < v i j)"
      using w0 v0 pos[OF i _ ai] by auto
    have Wp: "0 < sum (w i) {..<N}" using bi W by simp
    have 1: "0 < sum (v i) {..<N}"
      and 2: "(\<Sum>j<N. w i j * (ln (v i j) - ln (w i j)))
          \<le> sum (w i) {..<N} * (ln (sum (v i) {..<N}) - ln (sum (w i) {..<N}))"
      using log_sum_ineq[OF finite_lessThan cond Wp] by simp_all
    have "(\<Sum>j<N. w i j * (c i j + D j)) = (\<Sum>j<N. w i j * (ln (v i j) - ln (w i j)))"
    proof (rule sum.cong[OF refl])
      fix j assume "j \<in> {..<N}"
      then have j: "j < N" by simp
      show "w i j * (c i j + D j) = w i j * (ln (v i j) - ln (w i j))"
      proof (cases "0 < w i j")
        case True
        then show ?thesis using pos[OF i j ai] by simp
      next
        case False
        then have "w i j = 0" using w0[of i j] by linarith
        then show ?thesis by simp
      qed
    qed
    then show ?thesis using 1 2 by (simp add: W V)
  qed
  have part1: "\<forall>i<N. 0 < al t i \<and> 0 < be t (Suc d) i \<longrightarrow> 0 < be' t (Suc d) i"
    using row by blast
  have each: "al t i * (\<Sum>j<N. w i j * (c i j + D j))
      \<le> al t i * be t (Suc d) i * (ln (be' t (Suc d) i) - ln (be t (Suc d) i))" if i: "i < N" for i
  proof (cases "0 < al t i \<and> 0 < be t (Suc d) i")
    case True
    then have "(\<Sum>j<N. w i j * (c i j + D j))
        \<le> be t (Suc d) i * (ln (be' t (Suc d) i) - ln (be t (Suc d) i))"
      using row[OF i] by blast
    then show ?thesis using True by (simp add: mult.assoc mult_left_mono)
  next
    case False
    then consider "al t i = 0" | "be t (Suc d) i = 0"
      using al0[of t i] be0[of t "Suc d" i] by fastforce
    then show ?thesis
    proof cases
      case 1
      then show ?thesis by simp
    next
      case 2
      then have "(\<Sum>j<N. w i j) = 0" using W by simp
      then have "\<And>j. j < N \<Longrightarrow> w i j = 0"
        using w0 by (simp add: sum_nonneg_eq_0_iff)
      then show ?thesis using 2 by simp
    qed
  qed
  have "emR N p a z a' z' t (Suc d)
      = (\<Sum>i<N. \<Sum>j<N. al t i * w i j * c i j) + emR N p a z a' z' (Suc t) d"
    by (simp add: al_def be_def w_def c_def mult.assoc)
  also have "\<dots> \<le> (\<Sum>i<N. \<Sum>j<N. al t i * w i j * c i j)
      + (\<Sum>j<N. al (Suc t) j * be (Suc t) d j * D j)"
    using IH by (simp add: D_def)
  also have "(\<Sum>j<N. al (Suc t) j * be (Suc t) d j * D j)
      = (\<Sum>j<N. \<Sum>i<N. al t i * w i j * D j)"
  proof (rule sum.cong[OF refl])
    fix j
    have "(\<Sum>i<N. al t i * w i j * D j) = (\<Sum>i<N. al t i * a i j) * z (Suc t) j * be (Suc t) d j * D j"
      by (simp add: w_def sum_distrib_right mult.assoc)
    then show "al (Suc t) j * be (Suc t) d j * D j = (\<Sum>i<N. al t i * w i j * D j)"
      by (simp add: al_def mult.commute)
  qed
  also have "\<dots> = (\<Sum>i<N. \<Sum>j<N. al t i * w i j * D j)" by (rule sum.swap)
  also have "(\<Sum>i<N. \<Sum>j<N. al t i * w i j * c i j) + (\<Sum>i<N. \<Sum>j<N. al t i * w i j * D j)
      = (\<Sum>i<N. al t i * (\<Sum>j<N. w i j * (c i j + D j)))"
    by (simp add: sum.distrib[symmetric] sum_distrib_left distrib_left mult.assoc)
  also have "\<dots> \<le> (\<Sum>i<N. al t i * be t (Suc d) i * (ln (be' t (Suc d) i) - ln (be t (Suc d) i)))"
    using each by (intro sum_mono) simp
  finally have "emR N p a z a' z' t (Suc d)
      \<le> (\<Sum>i<N. al t i * be t (Suc d) i * (ln (be' t (Suc d) i) - ln (be t (Suc d) i)))"
    by simp
  then show ?case using part1 by simp
qed

lemma gu_nonneg:
  assumes "\<And>i. 0 \<le> p i" "\<And>i j. 0 \<le> a i j" "\<And>t i. 0 \<le> z t i"
  shows "0 \<le> gu N p a z T t i"
  unfolding gu_def using au_nonneg[OF assms] bu_nonneg[OF assms(2,3)] by simp

lemma xu_nonneg:
  assumes "\<And>i. 0 \<le> p i" "\<And>i j. 0 \<le> a i j" "\<And>t i. 0 \<le> z t i"
  shows "0 \<le> xu N p a z T t i j"
  unfolding xu_def using au_nonneg[OF assms] bu_nonneg[OF assms(2,3)] assms by simp

lemma gu_sum: "t < T \<Longrightarrow> (\<Sum>i<N. gu N p a z T t i) = lik N p a z T"
  unfolding gu_def lik_def using forward_backward[of N p a z t "T - 1 - t"] by simp

lemma xu_sum_j: "Suc t < T \<Longrightarrow> (\<Sum>j<N. xu N p a z T t i j) = gu N p a z T t i"
proof -
  assume t: "Suc t < T"
  then have d: "T - 1 - t = Suc (T - 2 - t)" by simp
  show ?thesis
    unfolding xu_def gu_def d by (simp add: sum_distrib_left mult.assoc)
qed

lemma xu_sum_i: "Suc t < T \<Longrightarrow> (\<Sum>i<N. xu N p a z T t i j) = gu N p a z T (Suc t) j"
proof -
  assume t: "Suc t < T"
  then have d: "T - 1 - Suc t = T - 2 - t" by simp
  have "(\<Sum>i<N. xu N p a z T t i j)
      = (\<Sum>i<N. au N p a z t i * a i j) * z (Suc t) j * bu N a z (Suc t) (T - 2 - t) j"
    unfolding xu_def by (simp add: sum_distrib_right)
  then show ?thesis unfolding gu_def d by (simp add: mult.commute)
qed

lemma emR_unroll:
  "emR N p a z a' z' t d =
     (\<Sum>s<d. \<Sum>i<N. \<Sum>j<N. au N p a z (t + s) i * a i j * z (Suc (t + s)) j *
        bu N a z (Suc (t + s)) (d - 1 - s) j *
        (ln (a' i j) - ln (a i j) + (ln (z' (Suc (t + s)) j) - ln (z (Suc (t + s)) j))))"
proof (induction d arbitrary: t)
  case 0
  show ?case by simp
next
  case (Suc d)
  show ?case
    unfolding emR.simps Suc.IH sum.lessThan_Suc_shift by simp
qed

lemma emR_as_xu:
  "emR N p a z a' z' 0 (T - 1) =
     (\<Sum>t<T - 1. \<Sum>i<N. \<Sum>j<N. xu N p a z T t i j *
        (ln (a' i j) - ln (a i j) + (ln (z' (Suc t) j) - ln (z (Suc t) j))))"
proof -
  have "T - 1 - 1 - s = T - 2 - s" for s by simp
  then show ?thesis unfolding emR_unroll xu_def by simp
qed

lemma gibbs_ineq:
  fixes w q :: "nat \<Rightarrow> real"
  assumes fin: "finite I"
    and nn: "\<And>j. j \<in> I \<Longrightarrow> 0 \<le> w j \<and> 0 \<le> q j \<and> (0 < w j \<longrightarrow> 0 < q j)"
    and W: "0 < sum w I" and q1: "sum q I = 1"
  shows "0 \<le> (\<Sum>j\<in>I. w j * (ln (w j / sum w I) - ln (q j)))"
proof -
  let ?W = "sum w I"
  have cond: "\<And>j. j \<in> I \<Longrightarrow> 0 \<le> w j \<and> 0 \<le> ?W * q j \<and> (0 < w j \<longrightarrow> 0 < ?W * q j)"
    using nn W by simp
  have "(\<Sum>j\<in>I. w j * (ln (?W * q j) - ln (w j))) \<le> ?W * (ln (\<Sum>j\<in>I. ?W * q j) - ln ?W)"
    using log_sum_ineq(2)[OF fin cond W] .
  also have "(\<Sum>j\<in>I. ?W * q j) = ?W" using q1 by (simp add: sum_distrib_left[symmetric])
  finally have le0: "(\<Sum>j\<in>I. w j * (ln (?W * q j) - ln (w j))) \<le> 0" by simp
  have "(\<Sum>j\<in>I. w j * (ln (w j / ?W) - ln (q j))) = - (\<Sum>j\<in>I. w j * (ln (?W * q j) - ln (w j)))"
    unfolding sum_negf[symmetric]
  proof (rule sum.cong[OF refl])
    fix j assume j: "j \<in> I"
    show "w j * (ln (w j / ?W) - ln (q j)) = - (w j * (ln (?W * q j) - ln (w j)))"
    proof (cases "0 < w j")
      case True
      then have "0 < q j" using nn j by blast
      then show ?thesis using True W by (simp add: ln_mult ln_div algebra_simps)
    next
      case False
      then have "w j = 0" using nn j by (metis order_le_less)
      then show ?thesis by simp
    qed
  qed
  then show ?thesis using le0 by simp
qed

section \<open>One reestimation step on the unscaled variables\<close>

text \<open>
  The likelihood under any second model is bounded below through the expected gain, and the
  reestimated parameters make each part of that gain nonnegative (Gibbs' inequality), so the
  likelihood does not decrease.
\<close>

lemma em_likelihood_bound:
  fixes N T :: nat and p p' :: "nat \<Rightarrow> real" and a z a' z' :: "nat \<Rightarrow> nat \<Rightarrow> real"
  assumes nn: "\<And>i. 0 \<le> p i" "\<And>i j. 0 \<le> a i j" "\<And>t i. 0 \<le> z t i"
    and nn': "\<And>i. 0 \<le> p' i" "\<And>i j. 0 \<le> a' i j" "\<And>t i. 0 \<le> z' t i"
    and T: "0 < T" and L: "0 < lik N p a z T"
    and supp: "\<And>t i j. i < N \<Longrightarrow> j < N \<Longrightarrow> Suc t < T \<Longrightarrow> 0 < xu N p a z T t i j \<Longrightarrow>
        0 < a' i j \<and> 0 < z' (Suc t) j"
    and supp0: "\<And>i. i < N \<Longrightarrow> 0 < gu N p a z T 0 i \<Longrightarrow> 0 < p' i \<and> 0 < z' 0 i"
  shows "0 < lik N p' a' z' T"
    and "(\<Sum>i<N. gu N p a z T 0 i * (ln (p' i) - ln (p i) + (ln (z' 0 i) - ln (z 0 i))))
          + emR N p a z a' z' 0 (T - 1)
        \<le> lik N p a z T * (ln (lik N p' a' z' T) - ln (lik N p a z T))"
proof -
  let ?d = "T - 1"
  define w where "w i = gu N p a z T 0 i" for i
  define v where "v i = au N p' a' z' 0 i * bu N a' z' 0 ?d i" for i
  define c where "c i = ln (p' i) - ln (p i) + (ln (z' 0 i) - ln (z 0 i))" for i
  define D where "D i = ln (bu N a' z' 0 ?d i) - ln (bu N a z 0 ?d i)" for i
  have w_eq: "w i = p i * z 0 i * bu N a z 0 ?d i" for i by (simp add: w_def gu_def)
  have sw: "sum w {..<N} = lik N p a z T"
    unfolding w_def using gu_sum[OF T] .
  have sv: "sum v {..<N} = lik N p' a' z' T"
    unfolding v_def lik_def using forward_backward[of N p' a' z' 0 ?d] by simp
  have supp': "\<And>t i j. i < N \<Longrightarrow> j < N \<Longrightarrow> Suc t < T \<Longrightarrow>
      0 < au N p a z t i * a i j * z (Suc t) j * bu N a z (Suc t) (T - 2 - t) j \<Longrightarrow>
      0 < a' i j \<and> 0 < z' (Suc t) j"
    using supp unfolding xu_def by blast
  have T1: "0 + ?d + 1 = T" using T by simp
  have bb: "(\<forall>i<N. 0 < au N p a z 0 i \<and> 0 < bu N a z 0 ?d i \<longrightarrow> 0 < bu N a' z' 0 ?d i) \<and>
      emR N p a z a' z' 0 ?d
        \<le> (\<Sum>i<N. au N p a z 0 i * bu N a z 0 ?d i * (ln (bu N a' z' 0 ?d i) - ln (bu N a z 0 ?d i)))"
    by (rule em_backward_bound[where p = p and a = a and z = z and a' = a' and z' = z' and N = N
          and T = T and t = 0 and d = "T - 1", OF nn nn'(2,3) supp' T1])
  have w0: "0 \<le> w i" for i unfolding w_def by (rule gu_nonneg[OF nn])
  have b0: "0 \<le> bu N a z 0 ?d i" for i by (intro bu_nonneg nn)
  have v0: "0 \<le> v i" for i
  proof -
    have "0 \<le> au N p' a' z' 0 i" by (intro au_nonneg nn')
    moreover have "0 \<le> bu N a' z' 0 ?d i" by (intro bu_nonneg nn')
    ultimately show ?thesis unfolding v_def by simp
  qed
  have pos: "0 < v i \<and> ln (v i) - ln (w i) = c i + D i" if i: "i < N" and wi: "0 < w i" for i
  proof -
    have "p i * z 0 i \<noteq> 0" and "bu N a z 0 ?d i \<noteq> 0" using wi unfolding w_eq by auto
    then have pi: "0 < p i" and zi: "0 < z 0 i" and bi: "0 < bu N a z 0 ?d i"
      using nn(1)[of i] nn(3)[of 0 i] b0[of i] by (auto simp: order_le_less)
    have pz: "0 < p i * z 0 i" using pi zi by simp
    have p'z': "0 < p' i \<and> 0 < z' 0 i" using supp0[OF i] wi by (simp add: w_def)
    have "0 < au N p a z 0 i" using pz by simp
    then have bi': "0 < bu N a' z' 0 ?d i" using bb bi i by blast
    have "0 < v i" unfolding v_def using p'z' bi' by simp
    moreover have "ln (v i) - ln (w i) = c i + D i"
      unfolding v_def w_eq c_def D_def using p'z' bi' pi zi bi by (simp add: ln_mult)
    ultimately show ?thesis by simp
  qed
  have cond: "\<And>i. i \<in> {..<N} \<Longrightarrow> 0 \<le> w i \<and> 0 \<le> v i \<and> (0 < w i \<longrightarrow> 0 < v i)"
    using w0 v0 pos by auto
  have Wp: "0 < sum w {..<N}" using L sw by simp
  have 1: "0 < sum v {..<N}"
    and 2: "(\<Sum>i<N. w i * (ln (v i) - ln (w i)))
        \<le> sum w {..<N} * (ln (sum v {..<N}) - ln (sum w {..<N}))"
    using log_sum_ineq[OF finite_lessThan cond Wp] by simp_all
  show "0 < lik N p' a' z' T" using 1 sv by simp
  have eq: "(\<Sum>i<N. w i * (c i + D i)) = (\<Sum>i<N. w i * (ln (v i) - ln (w i)))"
  proof (rule sum.cong[OF refl])
    fix i assume "i \<in> {..<N}"
    then have i: "i < N" by simp
    show "w i * (c i + D i) = w i * (ln (v i) - ln (w i))"
    proof (cases "0 < w i")
      case True
      then show ?thesis using pos[OF i] by simp
    next
      case False
      then have "w i = 0" using w0[of i] by linarith
      then show ?thesis by simp
    qed
  qed
  have "(\<Sum>i<N. w i * c i) + emR N p a z a' z' 0 ?d \<le> (\<Sum>i<N. w i * c i) + (\<Sum>i<N. w i * D i)"
    using bb by (simp add: w_def gu_def D_def)
  also have "\<dots> = (\<Sum>i<N. w i * (c i + D i))"
    by (simp add: sum.distrib[symmetric] distrib_left)
  also have "\<dots> \<le> sum w {..<N} * (ln (sum v {..<N}) - ln (sum w {..<N}))"
    using eq 2 by simp
  finally show "(\<Sum>i<N. gu N p a z T 0 i * (ln (p' i) - ln (p i) + (ln (z' 0 i) - ln (z 0 i))))
          + emR N p a z a' z' 0 (T - 1)
        \<le> lik N p a z T * (ln (lik N p' a' z' T) - ln (lik N p a z T))"
    by (simp add: w_def c_def sw[unfolded w_def] sv)
qed

lemma au_pos_z: 
  assumes "\<And>i. 0 \<le> p i" "\<And>i j. 0 \<le> a i j" "\<And>t i. 0 \<le> z t i"
    and "0 < au N p a z t i"
  shows "0 < z t i"
proof -
  have "z t i \<noteq> 0" using assms(4) by (cases t) auto
  then show ?thesis using assms(3)[of t i] by simp
qed

lemma sum_pos_member:
  fixes f :: "nat \<Rightarrow> real"
  assumes "\<And>t. t \<in> I \<Longrightarrow> 0 \<le> f t" "finite I" "0 < sum f I"
  shows "\<exists>t\<in>I. 0 < f t"
proof (rule ccontr)
  assume "\<not> (\<exists>t\<in>I. 0 < f t)"
  then have "\<And>t. t \<in> I \<Longrightarrow> f t = 0" using assms(1) by (metis order_le_less)
  then have "sum f I = 0" by simp
  then show False using assms(3) by simp
qed

lemma em_monotone:
  fixes N M T :: nat and p p' :: "nat \<Rightarrow> real" and a b a' b' :: "nat \<Rightarrow> nat \<Rightarrow> real"
    and ob :: "nat \<Rightarrow> nat"
  defines "z \<equiv> \<lambda>t i. b i (ob t)" and "z' \<equiv> \<lambda>t i. b' i (ob t)"
  defines "g \<equiv> gu N p a z T" and "x \<equiv> xu N p a z T"
  assumes nn: "\<And>i. 0 \<le> p i" "\<And>i j. 0 \<le> a i j" "\<And>i k. 0 \<le> b i k"
    and nn': "\<And>i. 0 \<le> p' i" "\<And>i j. 0 \<le> a' i j" "\<And>i k. 0 \<le> b' i k"
    and sp: "(\<Sum>i<N. p i) = 1" and sa: "\<And>i. i < N \<Longrightarrow> (\<Sum>j<N. a i j) = 1"
    and sb: "\<And>i. i < N \<Longrightarrow> (\<Sum>k<M. b i k) = 1"
    and obs: "\<And>t. t < T \<Longrightarrow> ob t < M"
    and T: "0 < T" and L: "0 < lik N p a z T"
    and P: "\<And>i. i < N \<Longrightarrow> p' i = g 0 i / lik N p a z T"
    and A: "\<And>i j. i < N \<Longrightarrow> j < N \<Longrightarrow> (\<Sum>t<T - 1. g t i) \<noteq> 0 \<Longrightarrow>
          a' i j = (\<Sum>t<T - 1. x t i j) / (\<Sum>t<T - 1. g t i)"
    and B: "\<And>i k. i < N \<Longrightarrow> k < M \<Longrightarrow> (\<Sum>t<T. g t i) \<noteq> 0 \<Longrightarrow>
          b' i k = (\<Sum>t<T. if ob t = k then g t i else 0) / (\<Sum>t<T. g t i)"
  shows "0 < lik N p' a' z' T \<and> lik N p a z T \<le> lik N p' a' z' T"
proof -
  let ?L = "lik N p a z T" and ?L' = "lik N p' a' z' T"
  have nz: "\<And>t i. 0 \<le> z t i" and nz': "\<And>t i. 0 \<le> z' t i" using nn nn' by (simp_all add: z_def z'_def)
  have g0: "0 \<le> g t i" for t i unfolding g_def by (intro gu_nonneg nn nz)
  have x0: "0 \<le> x t i j" for t i j unfolding x_def by (intro xu_nonneg nn nz)
  define G where "G i = (\<Sum>t<T - 1. g t i)" for i
  define X where "X i j = (\<Sum>t<T - 1. x t i j)" for i j
  define S where "S i = (\<Sum>t<T. g t i)" for i
  define Psi where "Psi i k = (\<Sum>t<T. if ob t = k then g t i else 0)" for i k
  have G0: "0 \<le> G i" for i unfolding G_def using g0 by (simp add: sum_nonneg)
  have X0: "0 \<le> X i j" for i j unfolding X_def using x0 by (simp add: sum_nonneg)
  have S0: "0 \<le> S i" for i unfolding S_def using g0 by (simp add: sum_nonneg)
  have Psi0: "0 \<le> Psi i k" for i k unfolding Psi_def using g0 by (simp add: sum_nonneg)
  have GX: "G i = (\<Sum>j<N. X i j)" for i
  proof -
    have "(\<Sum>j<N. X i j) = (\<Sum>t<T - 1. \<Sum>j<N. x t i j)" unfolding X_def by (rule sum.swap)
    also have "\<dots> = (\<Sum>t<T - 1. g t i)"
      by (rule sum.cong[OF refl]) (simp add: x_def g_def xu_sum_j)
    finally show ?thesis by (simp add: G_def)
  qed
  have SPsi: "S i = (\<Sum>k<M. Psi i k)" for i
  proof -
    have "(\<Sum>k<M. Psi i k) = (\<Sum>t<T. \<Sum>k<M. if ob t = k then g t i else 0)"
      unfolding Psi_def by (rule sum.swap)
    also have "\<dots> = (\<Sum>t<T. g t i)"
      by (rule sum.cong[OF refl]) (simp add: obs)
    finally show ?thesis by (simp add: S_def)
  qed
  have x_le_X: "x t i j \<le> X i j" if "Suc t < T" for t i j
    unfolding X_def using that x0 by (intro member_le_sum) auto
  have X_le_G: "X i j \<le> G i" if "j < N" for i j
    unfolding GX using that X0 by (intro member_le_sum) auto
  have g_le_S: "g t i \<le> S i" if "t < T" for t i
    unfolding S_def using that g0 by (intro member_le_sum) auto
  have g_le_Psi: "g t i \<le> Psi i (ob t)" if "t < T" for t i
  proof -
    have "(if ob t = ob t then g t i else 0) \<le> (\<Sum>s<T. if ob s = ob t then g s i else 0)"
      using that g0 by (intro member_le_sum[of t _ "\<lambda>s. if ob s = ob t then g s i else 0"]) auto
    then show ?thesis by (simp add: Psi_def)
  qed
  have x_le_g: "x t i j \<le> g (Suc t) j" if "Suc t < T" "i < N" for t i j
  proof -
    have "x t i j \<le> (\<Sum>i<N. x t i j)" using that x0 by (intro member_le_sum) auto
    then show ?thesis using that by (simp add: x_def g_def xu_sum_i)
  qed
  have a'_eq: "a' i j = X i j / G i" if "i < N" "j < N" "0 < G i" for i j
    using A[OF that(1,2)] that(3) by (simp add: G_def X_def)
  have b'_eq: "b' i k = Psi i k / S i" if "i < N" "k < M" "0 < S i" for i k
    using B[OF that(1,2)] that(3) by (simp add: S_def Psi_def)
  have b'_pos: "0 < b' i (ob t)" if "t < T" "i < N" "0 < g t i" for t i
  proof -
    have "0 < S i" using g_le_S[OF that(1), of i] that(3) by linarith
    moreover have "0 < Psi i (ob t)" using g_le_Psi[OF that(1), of i] that(3) by linarith
    ultimately show ?thesis using b'_eq[OF that(2) obs[OF that(1)]] by simp
  qed
  have supp: "0 < a' i j \<and> 0 < z' (Suc t) j"
    if "i < N" "j < N" "Suc t < T" "0 < xu N p a z T t i j" for t i j
  proof -
    have xp: "0 < x t i j" using that(4) by (simp add: x_def)
    have Xp: "0 < X i j" using x_le_X[OF that(3), of i j] xp by linarith
    have Gp: "0 < G i" using X_le_G[OF that(2), of i] Xp by linarith
    have "0 < a' i j" using a'_eq[OF that(1,2) Gp] Xp Gp by simp
    moreover have "0 < g (Suc t) j" using x_le_g[OF that(3,1), of j] xp by linarith
    then have "0 < z' (Suc t) j" unfolding z'_def using b'_pos[OF that(3,2)] by simp
    ultimately show ?thesis by simp
  qed
  have supp0: "0 < p' i \<and> 0 < z' 0 i" if "i < N" "0 < gu N p a z T 0 i" for i
  proof -
    have gp: "0 < g 0 i" using that(2) by (simp add: g_def)
    have "0 < p' i" using P[OF that(1)] gp L by simp
    moreover have "0 < z' 0 i" unfolding z'_def using b'_pos[OF T that(1) gp] .
    ultimately show ?thesis by simp
  qed
  note bound = em_likelihood_bound[where p = p and a = a and z = z and p' = p' and a' = a'
      and z' = z' and N = N and T = T, OF nn(1,2) nz nn'(1,2) nz' T L supp supp0]
  have L': "0 < ?L'" using bound(1) .
  define Qp where "Qp = (\<Sum>i<N. g 0 i * (ln (p' i) - ln (p i)))"
  define Qa where "Qa = (\<Sum>i<N. \<Sum>j<N. X i j * (ln (a' i j) - ln (a i j)))"
  define Qb where "Qb = (\<Sum>i<N. \<Sum>k<M. Psi i k * (ln (b' i k) - ln (b i k)))"
  have Qp0: "0 \<le> Qp"
  proof -
    have cond: "\<And>i. i \<in> {..<N} \<Longrightarrow> 0 \<le> g 0 i \<and> 0 \<le> p i \<and> (0 < g 0 i \<longrightarrow> 0 < p i)"
    proof -
      fix i
      have "0 < p i" if "0 < g 0 i"
      proof -
        have "p i \<noteq> 0" using that by (auto simp: g_def gu_def)
        then show ?thesis using nn(1)[of i] by simp
      qed
      then show "0 \<le> g 0 i \<and> 0 \<le> p i \<and> (0 < g 0 i \<longrightarrow> 0 < p i)" using g0 nn by simp
    qed
    have sg: "sum (g 0) {..<N} = ?L" unfolding g_def using gu_sum[OF T] .
    have "0 \<le> (\<Sum>i<N. g 0 i * (ln (g 0 i / sum (g 0) {..<N}) - ln (p i)))"
      using gibbs_ineq[OF finite_lessThan cond _ sp] L sg by simp
    also have "\<dots> = Qp"
      unfolding Qp_def sg by (rule sum.cong[OF refl]) (simp add: P)
    finally show ?thesis .
  qed
  have Qa0: "0 \<le> Qa"
    unfolding Qa_def
  proof (rule sum_nonneg)
    fix i assume "i \<in> {..<N}"
    then have i: "i < N" by simp
    show "0 \<le> (\<Sum>j<N. X i j * (ln (a' i j) - ln (a i j)))"
    proof (cases "0 < G i")
      case True
      have cond: "\<And>j. j \<in> {..<N} \<Longrightarrow> 0 \<le> X i j \<and> 0 \<le> a i j \<and> (0 < X i j \<longrightarrow> 0 < a i j)"
      proof -
        fix j
        have "0 < a i j" if Xp: "0 < X i j"
        proof -
          have "\<exists>t\<in>{..<T - 1}. 0 < x t i j"
            using Xp x0 by (intro sum_pos_member) (simp_all add: X_def)
          then obtain t where "t \<in> {..<T - 1}" "0 < x t i j" by blast
          then have "a i j \<noteq> 0" by (auto simp: x_def xu_def)
          then show ?thesis using nn(2)[of i j] by simp
        qed
        then show "0 \<le> X i j \<and> 0 \<le> a i j \<and> (0 < X i j \<longrightarrow> 0 < a i j)" using X0 nn by simp
      qed
      have sX: "sum (X i) {..<N} = G i" using GX by simp
      have "0 \<le> (\<Sum>j<N. X i j * (ln (X i j / sum (X i) {..<N}) - ln (a i j)))"
        using gibbs_ineq[OF finite_lessThan cond _ sa[OF i]] True sX by simp
      also have "\<dots> = (\<Sum>j<N. X i j * (ln (a' i j) - ln (a i j)))"
        unfolding sX by (rule sum.cong[OF refl]) (simp add: a'_eq[OF i _ True])
      finally show ?thesis .
    next
      case False
      then have "G i = 0" using G0[of i] by linarith
      then have "X i j = 0" if "j < N" for j
        using X_le_G[OF that, of i] X0[of i j] by linarith
      then show ?thesis by simp
    qed
  qed
  have Qb0: "0 \<le> Qb"
    unfolding Qb_def
  proof (rule sum_nonneg)
    fix i assume "i \<in> {..<N}"
    then have i: "i < N" by simp
    show "0 \<le> (\<Sum>k<M. Psi i k * (ln (b' i k) - ln (b i k)))"
    proof (cases "0 < S i")
      case True
      have cond: "\<And>k. k \<in> {..<M} \<Longrightarrow> 0 \<le> Psi i k \<and> 0 \<le> b i k \<and> (0 < Psi i k \<longrightarrow> 0 < b i k)"
      proof -
        fix k
        have "0 < b i k" if Pp: "0 < Psi i k"
        proof -
          have "\<exists>t\<in>{..<T}. 0 < (if ob t = k then g t i else 0)"
            using Pp g0 by (intro sum_pos_member) (simp_all add: Psi_def)
          then obtain t where t: "t \<in> {..<T}" "0 < (if ob t = k then g t i else 0)" by blast
          then have k: "ob t = k" and gp: "0 < g t i" by (auto split: if_splits)
          have "0 < au N p a z t i"
          proof -
            have "au N p a z t i \<noteq> 0" using gp by (auto simp: g_def gu_def)
            moreover have "0 \<le> au N p a z t i" by (intro au_nonneg nn nz)
            ultimately show ?thesis by simp
          qed
          then have "0 < z t i"
            by (rule au_pos_z[where p = p and a = a and N = N, OF nn(1,2) nz])
          then show ?thesis using k by (simp add: z_def)
        qed
        then show "0 \<le> Psi i k \<and> 0 \<le> b i k \<and> (0 < Psi i k \<longrightarrow> 0 < b i k)" using Psi0 nn by simp
      qed
      have sP: "sum (Psi i) {..<M} = S i" using SPsi by simp
      have "0 \<le> (\<Sum>k<M. Psi i k * (ln (Psi i k / sum (Psi i) {..<M}) - ln (b i k)))"
        using gibbs_ineq[OF finite_lessThan cond _ sb[OF i]] True sP by simp
      also have "\<dots> = (\<Sum>k<M. Psi i k * (ln (b' i k) - ln (b i k)))"
        unfolding sP by (rule sum.cong[OF refl]) (simp add: b'_eq[OF i _ True])
      finally show ?thesis .
    next
      case False
      then have "S i = 0" using S0[of i] by linarith
      then have "(\<Sum>k<M. Psi i k) = 0" using SPsi by simp
      then have "Psi i k = 0" if "k < M" for k
        using Psi0 that by (simp add: sum_nonneg_eq_0_iff)
      then show ?thesis by simp
    qed
  qed
  have Q_eq: "(\<Sum>i<N. gu N p a z T 0 i * (ln (p' i) - ln (p i) + (ln (z' 0 i) - ln (z 0 i))))
          + emR N p a z a' z' 0 (T - 1) = Qp + Qa + Qb"
  proof -
    define cz where "cz t i = ln (z' t i) - ln (z t i)" for t i
    define ca where "ca i j = ln (a' i j) - ln (a i j)" for i j
    have e1: "emR N p a z a' z' 0 (T - 1)
        = (\<Sum>t<T - 1. \<Sum>i<N. \<Sum>j<N. x t i j * ca i j)
          + (\<Sum>t<T - 1. \<Sum>j<N. g (Suc t) j * cz (Suc t) j)"
    proof -
      have "emR N p a z a' z' 0 (T - 1)
          = (\<Sum>t<T - 1. \<Sum>i<N. \<Sum>j<N. x t i j * (ca i j + cz (Suc t) j))"
        unfolding emR_as_xu x_def ca_def cz_def ..
      also have "\<dots> = (\<Sum>t<T - 1. (\<Sum>i<N. \<Sum>j<N. x t i j * ca i j)
          + (\<Sum>i<N. \<Sum>j<N. x t i j * cz (Suc t) j))"
        by (simp add: distrib_left sum.distrib)
      also have "\<dots> = (\<Sum>t<T - 1. \<Sum>i<N. \<Sum>j<N. x t i j * ca i j)
          + (\<Sum>t<T - 1. \<Sum>i<N. \<Sum>j<N. x t i j * cz (Suc t) j)"
        by (simp add: sum.distrib)
      also have "(\<Sum>t<T - 1. \<Sum>i<N. \<Sum>j<N. x t i j * cz (Suc t) j)
          = (\<Sum>t<T - 1. \<Sum>j<N. g (Suc t) j * cz (Suc t) j)"
      proof (rule sum.cong[OF refl])
        fix t assume "t \<in> {..<T - 1}"
        then have t: "Suc t < T" by simp
        have "(\<Sum>i<N. \<Sum>j<N. x t i j * cz (Suc t) j) = (\<Sum>j<N. \<Sum>i<N. x t i j * cz (Suc t) j)"
          by (rule sum.swap)
        also have "\<dots> = (\<Sum>j<N. g (Suc t) j * cz (Suc t) j)"
          using t by (simp add: sum_distrib_right[symmetric] x_def g_def xu_sum_i)
        finally show "(\<Sum>i<N. \<Sum>j<N. x t i j * cz (Suc t) j) = (\<Sum>j<N. g (Suc t) j * cz (Suc t) j)" .
      qed
      finally show ?thesis .
    qed
    have e2: "(\<Sum>t<T - 1. \<Sum>i<N. \<Sum>j<N. x t i j * ca i j) = Qa"
    proof -
      have "(\<Sum>t<T - 1. \<Sum>i<N. \<Sum>j<N. x t i j * ca i j)
          = (\<Sum>i<N. \<Sum>t<T - 1. \<Sum>j<N. x t i j * ca i j)" by (rule sum.swap)
      also have "\<dots> = (\<Sum>i<N. \<Sum>j<N. \<Sum>t<T - 1. x t i j * ca i j)"
        by (rule sum.cong[OF refl]) (rule sum.swap)
      also have "\<dots> = Qa"
        unfolding Qa_def X_def ca_def by (simp add: sum_distrib_right)
      finally show ?thesis .
    qed
    have e3: "(\<Sum>i<N. g 0 i * cz 0 i) + (\<Sum>t<T - 1. \<Sum>j<N. g (Suc t) j * cz (Suc t) j)
        = (\<Sum>t<T. \<Sum>i<N. g t i * cz t i)"
    proof -
      obtain T' where T': "T = Suc T'" using T by (cases T) auto
      have "(\<Sum>t<Suc T'. \<Sum>i<N. g t i * cz t i)
          = (\<Sum>i<N. g 0 i * cz 0 i) + (\<Sum>t<T'. \<Sum>i<N. g (Suc t) i * cz (Suc t) i)"
        by (rule sum.lessThan_Suc_shift)
      then show ?thesis by (simp only: T' diff_Suc_1)
    qed
    have e4: "(\<Sum>t<T. \<Sum>i<N. g t i * cz t i) = Qb"
    proof -
      have "(\<Sum>t<T. \<Sum>i<N. g t i * cz t i) = (\<Sum>i<N. \<Sum>t<T. g t i * cz t i)" by (rule sum.swap)
      also have "\<dots> = (\<Sum>i<N. \<Sum>t<T. \<Sum>k<M. (if ob t = k then g t i else 0) * (ln (b' i k) - ln (b i k)))"
      proof (intro sum.cong[OF refl])
        fix i t assume "t \<in> {..<T}"
        then have "ob t < M" using obs by simp
        then have "(\<Sum>k<M. (if ob t = k then g t i else 0) * (ln (b' i k) - ln (b i k)))
            = g t i * (ln (b' i (ob t)) - ln (b i (ob t)))"
          by (simp add: if_distrib[of "\<lambda>v. v * _"] sum.delta' cong: if_cong)
        then show "g t i * cz t i = (\<Sum>k<M. (if ob t = k then g t i else 0) * (ln (b' i k) - ln (b i k)))"
          by (simp add: cz_def z_def z'_def)
      qed
      also have "\<dots> = (\<Sum>i<N. \<Sum>k<M. \<Sum>t<T. (if ob t = k then g t i else 0) * (ln (b' i k) - ln (b i k)))"
        by (rule sum.cong[OF refl]) (rule sum.swap)
      also have "\<dots> = Qb"
        unfolding Qb_def Psi_def by (simp add: sum_distrib_right)
      finally show ?thesis .
    qed
    have "(\<Sum>i<N. gu N p a z T 0 i * (ln (p' i) - ln (p i) + (ln (z' 0 i) - ln (z 0 i))))
        = Qp + (\<Sum>i<N. g 0 i * cz 0 i)"
      unfolding Qp_def g_def cz_def by (simp add: distrib_left sum.distrib)
    then show ?thesis using e1 e2 e3 e4 by simp
  qed
  have "0 \<le> ?L * (ln ?L' - ln ?L)" using bound(2) Q_eq Qp0 Qa0 Qb0 by simp
  then have "0 \<le> ln ?L' - ln ?L" using L by (simp add: zero_le_mult_iff)
  then have "?L \<le> ?L'" using L L' by simp
  then show ?thesis using L' by simp
qed

section \<open>What the scaled passes compute\<close>

text \<open>
  On a model whose lists agree with the functions \<open>p\<close>, \<open>a\<close> and \<open>z\<close>, the forward pass succeeds
  exactly when no row of \<open>au\<close> sums to \<open>0\<close>; row \<open>t\<close> is then \<open>au t\<close> divided by its sum, the
  scaling factors are the quotients of consecutive row sums and their product is the likelihood.
  The backward pass gives \<open>bu\<close> scaled by \<open>su t / lik\<close>, so \<open>gamma\<close> and \<open>xi\<close> are \<open>gu\<close> and \<open>xu\<close>
  divided by the likelihood.
\<close>

lemma sum_list_upt0: "(\<Sum>i\<leftarrow>[0..<n]. f i) = (\<Sum>i<n. f i)"
  by (simp add: interv_sum_list_conv_sum_set_nat atLeast0LessThan)

lemma map_upt_cong: "(\<And>i. i < n \<Longrightarrow> f i = g i) \<Longrightarrow> map f [0..<n] = map g [0..<n]"
  by simp

lemma normalise_scaled:
  assumes "c \<noteq> 0" "(\<Sum>i<n. f i) = c"
  shows "normalise (map f [0..<n]) = Inr (map (\<lambda>i. f i / c) [0..<n], c)"
  using assms by (simp add: normalise_def sum_list_upt0 Let_def comp_def)

lemma fwd_char:
  assumes ag: "agrees Am Pim Zm T p a z" and N: "N = length Pim"
  shows "t < T \<Longrightarrow> (\<forall>t'\<le>t. su N p a z t' \<noteq> 0) \<Longrightarrow>
         fwd Am Pim Zm t = Inr (map (\<lambda>i. au N p a z t i / su N p a z t) [0..<N],
                               if t = 0 then su N p a z 0 else su N p a z t / su N p a z (t - 1))"
proof (induction t)
  case 0
  have m: "map (\<lambda>i. Pim ! i * Zm ! 0 ! i) [0..<length Pim] = map (\<lambda>i. p i * z 0 i) [0..<N]"
    unfolding N using ag 0(1) by (intro map_upt_cong) (simp add: agrees_def)
  have s: "(\<Sum>i<N. p i * z 0 i) = su N p a z 0" by (simp add: su_def)
  from 0 have nz: "su N p a z 0 \<noteq> 0" by simp
  show ?case unfolding fwd.simps m using normalise_scaled[OF nz s] by simp
next
  case (Suc t)
  let ?s = "su N p a z"
  have tT: "t < T" using Suc.prems by simp
  have nzt: "?s t \<noteq> 0" and nzS: "?s (Suc t) \<noteq> 0" using Suc.prems by auto
  have ih: "fwd Am Pim Zm t = Inr (map (\<lambda>i. au N p a z t i / ?s t) [0..<N],
                               if t = 0 then ?s 0 else ?s t / ?s (t - 1))"
    using Suc.IH[OF tT] Suc.prems by simp
  have row: "map (\<lambda>i. Zm ! Suc t ! i *
                 (\<Sum>j\<leftarrow>[0..<length Pim]. map (\<lambda>i. au N p a z t i / ?s t) [0..<N] ! j * Am ! j ! i))
               [0..<length Pim]
           = map (\<lambda>i. au N p a z (Suc t) i / ?s t) [0..<N]"
    unfolding N
  proof (rule map_upt_cong)
    fix i assume i: "i < length Pim"
    have "(\<Sum>j\<leftarrow>[0..<length Pim]. map (\<lambda>i. au (length Pim) p a z t i / su (length Pim) p a z t) [0..<length Pim] ! j * Am ! j ! i)
        = (\<Sum>j<length Pim. au (length Pim) p a z t j / su (length Pim) p a z t * a j i)"
      unfolding sum_list_upt0 using ag i by (intro sum.cong refl) (simp add: agrees_def)
    also have "\<dots> = (\<Sum>j<length Pim. au (length Pim) p a z t j * a j i) / su (length Pim) p a z t"
      by (simp add: sum_divide_distrib)
    finally show "Zm ! Suc t ! i *
         (\<Sum>j\<leftarrow>[0..<length Pim]. map (\<lambda>i. au (length Pim) p a z t i / su (length Pim) p a z t) [0..<length Pim] ! j * Am ! j ! i)
       = au (length Pim) p a z (Suc t) i / su (length Pim) p a z t"
      using ag i Suc.prems(1) by (simp add: agrees_def)
  qed
  have s: "(\<Sum>i<N. au N p a z (Suc t) i / ?s t) = ?s (Suc t) / ?s t"
    unfolding su_def by (simp add: sum_divide_distrib)
  have c: "?s (Suc t) / ?s t \<noteq> 0" using nzt nzS by simp
  have fin: "map (\<lambda>i. au N p a z (Suc t) i / ?s t / (?s (Suc t) / ?s t)) [0..<N]
           = map (\<lambda>i. au N p a z (Suc t) i / ?s (Suc t)) [0..<N]"
    using nzt nzS by simp
  show ?case
    unfolding fwd.simps ih sum.case prod.case row
    using normalise_scaled[OF c s] fin by simp
qed

lemma fwd_inr_nonzero:
  assumes ag: "agrees Am Pim Zm T p a z" and N: "N = length Pim"
  shows "t < T \<Longrightarrow> fwd Am Pim Zm t = Inr r \<Longrightarrow> (\<forall>t'\<le>t. su N p a z t' \<noteq> 0)"
proof (induction t arbitrary: r)
  case 0
  have m: "map (\<lambda>i. Pim ! i * Zm ! 0 ! i) [0..<length Pim] = map (\<lambda>i. p i * z 0 i) [0..<N]"
    unfolding N using ag 0(1) by (intro map_upt_cong) (simp add: agrees_def)
  have "sum_list (map (\<lambda>i. p i * z 0 i) [0..<N]) \<noteq> 0"
    using 0(2) unfolding fwd.simps m by (auto simp: normalise_def Let_def split: if_splits)
  then show ?case by (simp add: sum_list_upt0 su_def)
next
  case (Suc t)
  let ?s = "su N p a z"
  have tT: "t < T" using Suc.prems by simp
  obtain r0 where r0: "fwd Am Pim Zm t = Inr r0"
    using Suc.prems(2) by (cases "fwd Am Pim Zm t") auto
  have nz: "\<forall>t'\<le>t. ?s t' \<noteq> 0" using Suc.IH[OF tT r0] .
  have "?s (Suc t) \<noteq> 0"
  proof
    assume z0: "?s (Suc t) = 0"
    have ih: "fwd Am Pim Zm t = Inr (map (\<lambda>i. au N p a z t i / ?s t) [0..<N],
                               if t = 0 then ?s 0 else ?s t / ?s (t - 1))"
      using fwd_char[OF ag N tT nz] .
    have row: "map (\<lambda>i. Zm ! Suc t ! i *
                 (\<Sum>j\<leftarrow>[0..<length Pim]. map (\<lambda>i. au N p a z t i / ?s t) [0..<N] ! j * Am ! j ! i))
               [0..<length Pim]
           = map (\<lambda>i. au N p a z (Suc t) i / ?s t) [0..<N]"
      unfolding N
    proof (rule map_upt_cong)
      fix i assume i: "i < length Pim"
      have "(\<Sum>j\<leftarrow>[0..<length Pim]. map (\<lambda>i. au (length Pim) p a z t i / su (length Pim) p a z t) [0..<length Pim] ! j * Am ! j ! i)
          = (\<Sum>j<length Pim. au (length Pim) p a z t j / su (length Pim) p a z t * a j i)"
        unfolding sum_list_upt0 using ag i by (intro sum.cong refl) (simp add: agrees_def)
      also have "\<dots> = (\<Sum>j<length Pim. au (length Pim) p a z t j * a j i) / su (length Pim) p a z t"
        by (simp add: sum_divide_distrib)
      finally show "Zm ! Suc t ! i *
           (\<Sum>j\<leftarrow>[0..<length Pim]. map (\<lambda>i. au (length Pim) p a z t i / su (length Pim) p a z t) [0..<length Pim] ! j * Am ! j ! i)
         = au (length Pim) p a z (Suc t) i / su (length Pim) p a z t"
        using ag i Suc.prems(1) by (simp add: agrees_def)
    qed
    have s: "sum_list (map (\<lambda>i. au N p a z (Suc t) i / ?s t) [0..<N]) = 0"
      unfolding sum_list_upt0 using z0 by (simp add: su_def flip: sum_divide_distrib)
    have "fwd Am Pim Zm (Suc t) = Inl DegenerateSequence"
      unfolding fwd.simps ih sum.case prod.case row by (simp only: normalise_def Let_def s) simp
    with Suc.prems(2) show False by simp
  qed
  with nz show ?case by (auto simp: le_Suc_eq)
qed

lemma prod_cu:
  "(\<forall>t<Suc T. su N p a z t \<noteq> 0) \<Longrightarrow> prod_list (map (cu N p a z) [0..<Suc T]) = su N p a z T"
proof (induction T)
  case 0
  show ?case by (simp add: cu_def)
next
  case (Suc T)
  have "prod_list (map (cu N p a z) [0..<Suc (Suc T)])
      = prod_list (map (cu N p a z) [0..<Suc T]) * cu N p a z (Suc T)"
    by simp
  also have "\<dots> = su N p a z T * (su N p a z (Suc T) / su N p a z T)"
  proof -
    have ih: "prod_list (map (cu N p a z) [0..<Suc T]) = su N p a z T"
      using Suc.IH Suc.prems by simp
    have c: "cu N p a z (Suc T) = su N p a z (Suc T) / su N p a z T" by (simp add: cu_def)
    show ?thesis by (simp only: ih c)
  qed
  also have "\<dots> = su N p a z (Suc T)" using Suc.prems by simp
  finally show ?case .
qed

lemma forward_pass_char:
  assumes ag: "agrees Am Pim Zm T p a z" and N: "N = length Pim" and T: "length Zm = T"
    and nz: "\<forall>t<T. su N p a z t \<noteq> 0"
  shows "forward_pass Am Pim Zm =
           Inr (map (\<lambda>t. map (\<lambda>i. au N p a z t i / su N p a z t) [0..<N]) [0..<T],
                map (cu N p a z) [0..<T],
                prod_list (map (cu N p a z) [0..<T]))"
proof -
  have rows: "map (fwd Am Pim Zm) [0..<length Zm]
       = map (\<lambda>t. Inr (map (\<lambda>i. au N p a z t i / su N p a z t) [0..<N], cu N p a z t)) [0..<T]"
    unfolding T
  proof (rule map_upt_cong)
    fix t assume t: "t < T"
    have "\<forall>t'\<le>t. su N p a z t' \<noteq> 0" using nz t by auto
    from fwd_char[OF ag N t this]
    show "fwd Am Pim Zm t = Inr (map (\<lambda>i. au N p a z t i / su N p a z t) [0..<N], cu N p a z t)"
      by (simp add: cu_def)
  qed
  show ?thesis unfolding forward_pass_def rows by (simp add: Let_def comp_def)
qed

lemma forward_pass_nonzero:
  assumes ag: "agrees Am Pim Zm T p a z" and N: "N = length Pim" and T: "length Zm = T"
    and ok: "forward_pass Am Pim Zm = Inr r"
  shows "\<forall>t<T. su N p a z t \<noteq> 0"
proof (intro allI impI)
  fix t assume t: "t < T"
  have "\<not> isl (fwd Am Pim Zm t)"
    using ok t T unfolding forward_pass_def Let_def by (auto split: if_splits)
  then obtain r0 where "fwd Am Pim Zm t = Inr r0" by (cases "fwd Am Pim Zm t") auto
  from fwd_inr_nonzero[OF ag N t this] show "su N p a z t \<noteq> 0" by simp
qed

lemma su_zero_step:
  assumes "su N p a z t = 0" and nn: "\<And>i. 0 \<le> p i" "\<And>i j. 0 \<le> a i j" "\<And>t i. 0 \<le> z t i"
  shows "su N p a z (Suc t) = 0"
proof -
  have a0: "0 \<le> au N p a z t i" for i by (intro au_nonneg nn)
  have "\<forall>i\<in>{..<N}. au N p a z t i = 0"
    using assms(1) a0 unfolding su_def by (subst (asm) sum_nonneg_eq_0_iff) auto
  then show ?thesis unfolding su_def by simp
qed

lemma su_zero_later:
  assumes "su N p a z t = 0" and nn: "\<And>i. 0 \<le> p i" "\<And>i j. 0 \<le> a i j" "\<And>t i. 0 \<le> z t i"
  shows "su N p a z (t + d) = 0"
proof (induction d)
  case 0 show ?case using assms(1) by simp
next
  case (Suc d)
  show ?case using su_zero_step[OF Suc nn] by simp
qed

lemma su_all_nonzero:
  assumes L: "0 < lik N p a z T" and T: "0 < T"
    and nn: "\<And>i. 0 \<le> p i" "\<And>i j. 0 \<le> a i j" "\<And>t i. 0 \<le> z t i"
  shows "\<forall>t<T. su N p a z t \<noteq> 0"
proof (intro allI impI notI)
  fix t assume t: "t < T" and z0: "su N p a z t = 0"
  have "su N p a z (t + (T - 1 - t)) = 0" by (rule su_zero_later[OF z0 nn])
  moreover have "t + (T - 1 - t) = T - 1" using t by simp
  ultimately show False using L by (simp add: lik_def su_def)
qed

lemma bwd_char:
  assumes ag: "agrees Am Pim Zm T p a z" and N: "N = length Pim" and T: "length Zm = T"
    and cs: "\<And>t. t < T \<Longrightarrow> cs ! t = cu N p a z t"
    and nz: "\<forall>t<T. su N p a z t \<noteq> 0"
  shows "d < T \<Longrightarrow> bwd Am N Zm cs d =
           map (\<lambda>i. bu N a z (T - 1 - d) d i * su N p a z (T - 1 - d) / su N p a z (T - 1)) [0..<N]"
proof (induction d)
  case 0
  have "su N p a z (T - 1) \<noteq> 0" using nz 0 by simp
  then show ?case by (simp add: map_replicate_const)
next
  case (Suc d)
  let ?t = "T - 1 - Suc d"
  have St: "Suc ?t = T - 1 - d" and StT: "Suc ?t < T" using Suc.prems by simp_all
  have nzt: "su N p a z ?t \<noteq> 0" and nzS: "su N p a z (Suc ?t) \<noteq> 0" and nzL: "su N p a z (T - 1) \<noteq> 0"
    using nz Suc.prems StT by simp_all
  have ih: "bwd Am N Zm cs d =
           map (\<lambda>i. bu N a z (Suc ?t) d i * su N p a z (Suc ?t) / su N p a z (T - 1)) [0..<N]"
    using Suc.IH Suc.prems unfolding St by simp
  have c: "cs ! Suc ?t = su N p a z (Suc ?t) / su N p a z ?t"
    using cs[OF StT] by (simp add: cu_def)
  have "map (\<lambda>i. (\<Sum>j\<leftarrow>[0..<N]. Am ! i ! j * Zm ! Suc ?t ! j *
                map (\<lambda>i. bu N a z (Suc ?t) d i * su N p a z (Suc ?t) / su N p a z (T - 1)) [0..<N] ! j)
              / cs ! Suc ?t) [0..<N]
      = map (\<lambda>i. bu N a z ?t (Suc d) i * su N p a z ?t / su N p a z (T - 1)) [0..<N]"
  proof (rule map_upt_cong)
    fix i assume i: "i < N"
    have "(\<Sum>j\<leftarrow>[0..<N]. Am ! i ! j * Zm ! Suc ?t ! j *
                map (\<lambda>i. bu N a z (Suc ?t) d i * su N p a z (Suc ?t) / su N p a z (T - 1)) [0..<N] ! j)
        = (\<Sum>j<N. (a i j * z (Suc ?t) j * bu N a z (Suc ?t) d j) * (su N p a z (Suc ?t) / su N p a z (T - 1)))"
      unfolding sum_list_upt0 using ag i StT N by (intro sum.cong refl) (simp add: agrees_def)
    also have "\<dots> = bu N a z ?t (Suc d) i * (su N p a z (Suc ?t) / su N p a z (T - 1))"
      by (simp only: bu.simps sum_distrib_right)
    finally show "(\<Sum>j\<leftarrow>[0..<N]. Am ! i ! j * Zm ! Suc ?t ! j *
                map (\<lambda>i. bu N a z (Suc ?t) d i * su N p a z (Suc ?t) / su N p a z (T - 1)) [0..<N] ! j)
              / cs ! Suc ?t = bu N a z ?t (Suc d) i * su N p a z ?t / su N p a z (T - 1)"
      unfolding c using nzt nzS nzL by (simp add: field_simps)
  qed
  then show ?case unfolding bwd.simps ih Let_def T .
qed

lemma lik_su: "lik N p a z T = su N p a z (T - 1)"
  by (simp add: lik_def su_def)

lemma forward_pass_ok:
  assumes "fb_ok Am Pim Zm T N p a z"
  shows "forward_pass Am Pim Zm = Inr (al_u N p a z T, map (cu N p a z) [0..<T], lik N p a z T)"
proof -
  from assms have ag: "agrees Am Pim Zm T p a z" and N: "N = length Pim" and T: "length Zm = T"
    and T0: "0 < T" and nz: "\<forall>t<T. su N p a z t \<noteq> 0" unfolding fb_ok_def by blast+
  obtain T' where T': "T = Suc T'" using T0 by (cases T) auto
  have "prod_list (map (cu N p a z) [0..<T]) = lik N p a z T"
    unfolding T' lik_su using prod_cu[of T' N p a z] nz T' by simp
  then show ?thesis using forward_pass_char[OF ag N T nz] by (simp add: al_u_def)
qed

lemma backward_pass_ok:
  assumes "fb_ok Am Pim Zm T N p a z"
  shows "backward_pass Am N Zm (map (cu N p a z) [0..<T]) = be_u N p a z T"
proof -
  from assms have ag: "agrees Am Pim Zm T p a z" and N: "N = length Pim" and T: "length Zm = T"
    and T0: "0 < T" and nz: "\<forall>t<T. su N p a z t \<noteq> 0" unfolding fb_ok_def by blast+
  have cs: "\<And>t. t < T \<Longrightarrow> map (cu N p a z) [0..<T] ! t = cu N p a z t" by simp
  show ?thesis unfolding backward_pass_def be_u_def T
  proof (rule map_upt_cong)
    fix t assume t: "t < T"
    then have d: "T - 1 - t < T" and e: "T - 1 - (T - 1 - t) = t" by simp_all
    show "bwd Am N Zm (map (cu N p a z) [0..<T]) (T - 1 - t)
        = map (\<lambda>i. bu N a z t (T - 1 - t) i * su N p a z t / su N p a z (T - 1)) [0..<N]"
      using bwd_char[OF ag N T cs nz d] unfolding e by simp
  qed
qed

lemma map2_upt:
  "map2 h (map f [0..<n]) (map g [0..<n]) = map (\<lambda>t. h (f t) (g t)) [0..<n]"
  by (simp add: zip_map_map zip_same_conv_map comp_def)

lemma spec_gamma_ok:
  assumes "fb_ok Am Pim Zm T N p a z"
  shows "spec_gamma (al_u N p a z T) (be_u N p a z T) = ga_u N p a z T"
proof -
  from assms have nz: "\<forall>t<T. su N p a z t \<noteq> 0" and T0: "0 < T" unfolding fb_ok_def by blast+
  have "map2 (map2 (*)) (al_u N p a z T) (be_u N p a z T)
      = map (\<lambda>t. map (\<lambda>i. (au N p a z t i / su N p a z t) *
                          (bu N a z t (T - 1 - t) i * su N p a z t / su N p a z (T - 1))) [0..<N]) [0..<T]"
    unfolding al_u_def be_u_def map2_upt ..
  also have "\<dots> = ga_u N p a z T"
    unfolding ga_u_def
  proof (rule map_upt_cong)
    fix t assume t: "t < T"
    then have "su N p a z t \<noteq> 0" using nz by simp
    then show "map (\<lambda>i. (au N p a z t i / su N p a z t) *
                          (bu N a z t (T - 1 - t) i * su N p a z t / su N p a z (T - 1))) [0..<N]
             = map (\<lambda>i. gu N p a z T t i / lik N p a z T) [0..<N]"
      by (simp add: gu_def lik_su)
  qed
  finally show ?thesis by (simp add: spec_gamma_def)
qed

lemma sum_list_concat_map: "sum_list (concat xss) = sum_list (map sum_list xss)"
  by (induction xss) simp_all

lemma xu_total: "Suc t < T \<Longrightarrow> (\<Sum>i<N. \<Sum>j<N. xu N p a z T t i j) = lik N p a z T"
  by (simp add: xu_sum_j gu_sum)

lemma spec_xi_ok:
  assumes "fb_ok Am Pim Zm T N p a z"
  shows "spec_xi Am N Zm (al_u N p a z T) (be_u N p a z T) = xi_u N p a z T"
proof -
  from assms have ag: "agrees Am Pim Zm T p a z" and N: "N = length Pim" and T: "length Zm = T"
    and T0: "0 < T" and nz: "\<forall>t<T. su N p a z t \<noteq> 0" unfolding fb_ok_def by blast+
  let ?L = "lik N p a z T"
  have L0: "?L \<noteq> 0" using nz T0 by (simp add: lik_su)
  show ?thesis unfolding spec_xi_def xi_u_def T
  proof (rule map_upt_cong)
    fix t assume t: "t < T - 1"
    then have tT: "t < T" and StT: "Suc t < T" by simp_all
    define k where "k = su N p a z (Suc t) / (su N p a z t * ?L)"
    have k0: "k \<noteq> 0" using nz tT StT L0 by (simp add: k_def)
    have raw: "map (\<lambda>i. map (\<lambda>j. al_u N p a z T ! t ! i * Am ! i ! j * be_u N p a z T ! Suc t ! j * Zm ! Suc t ! j)
                      [0..<N]) [0..<N]
             = map (\<lambda>i. map (\<lambda>j. xu N p a z T t i j * k) [0..<N]) [0..<N]"
    proof (intro map_upt_cong)
      fix i j assume i: "i < N" and j: "j < N"
      have A: "Am ! i ! j = a i j" and Z: "Zm ! Suc t ! j = z (Suc t) j"
        using ag i j StT N by (simp_all add: agrees_def)
      have d: "T - 1 - Suc t = T - 2 - t" by simp
      show "al_u N p a z T ! t ! i * Am ! i ! j * be_u N p a z T ! Suc t ! j * Zm ! Suc t ! j
          = xu N p a z T t i j * k"
        unfolding A Z using i j tT StT by (simp add: al_u_def be_u_def xu_def k_def lik_su d)
    qed
    have c: "sum_list (concat (map (\<lambda>i. map (\<lambda>j. xu N p a z T t i j * k) [0..<N]) [0..<N])) = ?L * k"
    proof -
      have "sum_list (concat (map (\<lambda>i. map (\<lambda>j. xu N p a z T t i j * k) [0..<N]) [0..<N]))
          = (\<Sum>i<N. \<Sum>j<N. xu N p a z T t i j * k)"
        by (simp add: sum_list_concat_map comp_def sum_list_upt0)
      also have "\<dots> = (\<Sum>i<N. \<Sum>j<N. xu N p a z T t i j) * k"
        by (simp add: sum_distrib_right)
      finally show ?thesis by (simp only: xu_total[OF StT])
    qed
    have fin: "xu N p a z T t i j * k / (?L * k) = xu N p a z T t i j / ?L" for i j
      using k0 L0 by simp
    show "(let raw = map (\<lambda>i. map (\<lambda>j. al_u N p a z T ! t ! i * Am ! i ! j * be_u N p a z T ! Suc t ! j * Zm ! Suc t ! j)
                      [0..<N]) [0..<N];
               c = sum_list (concat raw)
           in map (map (\<lambda>v. v / c)) raw)
        = map (\<lambda>i. map (\<lambda>j. xu N p a z T t i j / ?L) [0..<N]) [0..<N]"
      unfolding raw Let_def c by (simp add: comp_def fin)
  qed
qed

section \<open>The reestimated parameters\<close>

text \<open>
  The entries of the reestimated matrices, read as functions: the quotient of the summed
  statistics where the denominator is not \<open>0\<close>, the old entry otherwise. They are nonnegative
  and every row sums to \<open>1\<close>.
\<close>

lemma vf_nonneg: "(\<forall>i<length v. 0 \<le> v ! i) \<Longrightarrow> 0 \<le> vf v i"
  by (simp add: vf_def)

lemma mf_nonneg: "nonneg_mat X \<Longrightarrow> 0 \<le> mf X i j"
  by (simp add: mf_def nonneg_mat_def)

lemma vf_sum: "length v = N \<Longrightarrow> (\<Sum>i<N. vf v i) = sum_list v"
  by (simp add: vf_def sum_list_sum_nth atLeast0LessThan)

lemma mf_row_sum: "shaped X r c \<Longrightarrow> i < r \<Longrightarrow> (\<Sum>j<c. mf X i j) = sum_list (X ! i)"
  by (simp add: mf_def shaped_def sum_list_sum_nth atLeast0LessThan)

lemma ncols_nth: "0 < length X \<Longrightarrow> ncols X = length (X ! 0)"
  by (cases X) (simp_all add: ncols_def)

lemma ncols_shaped: "shaped X r c \<Longrightarrow> 0 < r \<Longrightarrow> ncols X = c"
  by (simp add: shaped_def ncols_nth)

lemma agrees_views:
  assumes A: "shaped Am (length Pim) (length Pim)" and B: "shaped Bm (length Pim) m"
    and sym: "\<forall>ob \<in> set os. 0 \<le> ob \<and> ob < int m"
  shows "agrees Am Pim (map (\<lambda>ob. map (\<lambda>row. row ! nat ob) Bm) os) (length os)
           (vf Pim) (mf Am) (\<lambda>t i. mf Bm i (nat (os ! t)))"
  unfolding agrees_def
proof (intro conjI allI impI)
  fix i assume "i < length Pim"
  then show "Pim ! i = vf Pim i" by (simp add: vf_def)
next
  fix i j assume "i < length Pim" "j < length Pim"
  then show "Am ! i ! j = mf Am i j" using A by (simp add: mf_def shaped_def)
next
  fix t i assume t: "t < length os" and i: "i < length Pim"
  have "os ! t \<in> set os" using t by simp
  then have "nat (os ! t) < m" using sym by auto
  then show "map (\<lambda>ob. map (\<lambda>row. row ! nat ob) Bm) os ! t ! i = mf Bm i (nat (os ! t))"
    using t i B by (simp add: mf_def shaped_def)
qed

lemma ga_u_nth: "t < T \<Longrightarrow> i < N \<Longrightarrow> ga_u N p a z T ! t ! i = gu N p a z T t i / lik N p a z T"
  by (simp add: ga_u_def)

lemma xi_u_nth:
  "t < T - 1 \<Longrightarrow> i < N \<Longrightarrow> j < N \<Longrightarrow> xi_u N p a z T ! t ! i ! j = xu N p a z T t i j / lik N p a z T"
  by (simp add: xi_u_def)

lemma ga_u_sum:
  assumes "n \<le> T" "i < N"
  shows "(\<Sum>t\<leftarrow>[0..<n]. ga_u N p a z T ! t ! i) = (\<Sum>t<n. gu N p a z T t i) / lik N p a z T"
proof -
  have "(\<Sum>t\<leftarrow>[0..<n]. ga_u N p a z T ! t ! i) = (\<Sum>t<n. gu N p a z T t i / lik N p a z T)"
    unfolding sum_list_upt0 using assms by (intro sum.cong refl) (simp add: ga_u_nth)
  then show ?thesis by (simp add: sum_divide_distrib)
qed

lemma xi_u_sum:
  assumes "i < N" "j < N"
  shows "(\<Sum>t\<leftarrow>[0..<T - 1]. xi_u N p a z T ! t ! i ! j) = (\<Sum>t<T - 1. xu N p a z T t i j) / lik N p a z T"
proof -
  have "(\<Sum>t\<leftarrow>[0..<T - 1]. xi_u N p a z T ! t ! i ! j) = (\<Sum>t<T - 1. xu N p a z T t i j / lik N p a z T)"
    unfolding sum_list_upt0 using assms by (intro sum.cong refl) (simp add: xi_u_nth)
  then show ?thesis by (simp add: sum_divide_distrib)
qed

lemma spec_psi_nth:
  assumes "t < T" "length os = T" "i < N" "k < m"
  shows "spec_psi m os (ga_u N p a z T) ! t ! i ! k
       = (if os ! t = int k then gu N p a z T t i / lik N p a z T else 0)"
  using assms by (simp add: spec_psi_def ga_u_def)

lemma psi_sum:
  assumes "length os = T" "i < N" "k < m" "\<forall>ob \<in> set os. 0 \<le> ob"
  shows "(\<Sum>t\<leftarrow>[0..<T]. spec_psi m os (ga_u N p a z T) ! t ! i ! k)
       = (\<Sum>t<T. if nat (os ! t) = k then gu N p a z T t i else 0) / lik N p a z T"
proof -
  have "(\<Sum>t\<leftarrow>[0..<T]. spec_psi m os (ga_u N p a z T) ! t ! i ! k)
      = (\<Sum>t<T. (if nat (os ! t) = k then gu N p a z T t i else 0) / lik N p a z T)"
    unfolding sum_list_upt0
  proof (intro sum.cong refl)
    fix t assume "t \<in> {..<T}"
    then have t: "t < T" by simp
    then have "os ! t \<in> set os" using assms(1) by simp
    then have "0 \<le> os ! t" using assms(4) by simp
    then have "(os ! t = int k) = (nat (os ! t) = k)" by auto
    then show "spec_psi m os (ga_u N p a z T) ! t ! i ! k
        = (if nat (os ! t) = k then gu N p a z T t i else 0) / lik N p a z T"
      using spec_psi_nth[OF t assms(1,2,3)] by simp
  qed
  then show ?thesis by (simp add: sum_divide_distrib)
qed

lemma full_em_A_shaped: "shaped Am N N \<Longrightarrow> shaped (full_em_A Am N T xs ga) N N"
  by (simp add: shaped_def full_em_A_def Let_def)

lemma full_em_B_shaped: "shaped Bm N m \<Longrightarrow> shaped (full_em_B Bm N m T ps ga) N m"
  by (simp add: shaped_def full_em_B_def Let_def)

lemma full_em_A_view:
  assumes sh: "shaped Am N N" and i: "i < N" and j: "j < N" and L: "lik N p a z T \<noteq> 0"
  shows "mf (full_em_A Am N T (xi_u N p a z T) (ga_u N p a z T)) i j
       = (if (\<Sum>t<T - 1. gu N p a z T t i) = 0 then mf Am i j
          else (\<Sum>t<T - 1. xu N p a z T t i j) / (\<Sum>t<T - 1. gu N p a z T t i))"
proof -
  let ?A' = "full_em_A Am N T (xi_u N p a z T) (ga_u N p a z T)"
  have sh': "shaped ?A' N N" by (rule full_em_A_shaped[OF sh])
  have m': "mf ?A' i j = ?A' ! i ! j" using sh' i j by (simp add: mf_def shaped_def)
  have m: "mf Am i j = Am ! i ! j" using sh i j by (simp add: mf_def shaped_def)
  have g: "(\<Sum>t\<leftarrow>[0..<T - 1]. ga_u N p a z T ! t ! i) = (\<Sum>t<T - 1. gu N p a z T t i) / lik N p a z T"
    by (rule ga_u_sum) (simp_all add: i)
  have x: "(\<Sum>t\<leftarrow>[0..<T - 1]. xi_u N p a z T ! t ! i ! j) = (\<Sum>t<T - 1. xu N p a z T t i j) / lik N p a z T"
    by (rule xi_u_sum[OF i j])
  show ?thesis unfolding m' m using i j L by (simp add: full_em_A_def Let_def g x del: One_nat_def)
qed

lemma full_em_B_view:
  assumes sh: "shaped Bm N m" and i: "i < N" and k: "k < m" and L: "lik N p a z T \<noteq> 0"
    and len: "length os = T" and sym: "\<forall>ob \<in> set os. 0 \<le> ob"
  shows "mf (full_em_B Bm N m T (spec_psi m os (ga_u N p a z T)) (ga_u N p a z T)) i k
       = (if (\<Sum>t<T. gu N p a z T t i) = 0 then mf Bm i k
          else (\<Sum>t<T. if nat (os ! t) = k then gu N p a z T t i else 0) / (\<Sum>t<T. gu N p a z T t i))"
proof -
  let ?B' = "full_em_B Bm N m T (spec_psi m os (ga_u N p a z T)) (ga_u N p a z T)"
  have sh': "shaped ?B' N m" by (rule full_em_B_shaped[OF sh])
  have m': "mf ?B' i k = ?B' ! i ! k" using sh' i k by (simp add: mf_def shaped_def)
  have m: "mf Bm i k = Bm ! i ! k" using sh i k by (simp add: mf_def shaped_def)
  have g: "(\<Sum>t\<leftarrow>[0..<T]. ga_u N p a z T ! t ! i) = (\<Sum>t<T. gu N p a z T t i) / lik N p a z T"
    by (rule ga_u_sum) (simp_all add: i)
  have x: "(\<Sum>t\<leftarrow>[0..<T]. spec_psi m os (ga_u N p a z T) ! t ! i ! k)
       = (\<Sum>t<T. if nat (os ! t) = k then gu N p a z T t i else 0) / lik N p a z T"
    by (rule psi_sum[OF len i k sym])
  show ?thesis unfolding m' m using i k L by (simp add: full_em_B_def Let_def g x del: One_nat_def)
qed

lemma nonneg_matI:
  assumes "shaped X r c" "\<And>i j. i < r \<Longrightarrow> j < c \<Longrightarrow> 0 \<le> mf X i j"
  shows "nonneg_mat X"
  unfolding nonneg_mat_def
proof (intro allI impI)
  fix i j assume i: "i < length X" and j: "j < length (X ! i)"
  then have "i < r" "j < c" using assms(1) by (simp_all add: shaped_def)
  from assms(2)[OF this] show "0 \<le> X ! i ! j" using i j by (simp add: mf_def)
qed

lemma full_em_A_nonneg:
  assumes sh: "shaped Am N N" and nA: "nonneg_mat Am" and L: "lik N p a z T \<noteq> 0"
    and nn: "\<And>i. 0 \<le> p i" "\<And>i j. 0 \<le> a i j" "\<And>t i. 0 \<le> z t i"
  shows "nonneg_mat (full_em_A Am N T (xi_u N p a z T) (ga_u N p a z T))"
proof (rule nonneg_matI[OF full_em_A_shaped[OF sh]])
  fix i j assume i: "i < N" and j: "j < N"
  have 1: "0 \<le> (\<Sum>t<T - 1. xu N p a z T t i j)" by (intro sum_nonneg xu_nonneg nn)
  have 2: "0 \<le> (\<Sum>t<T - 1. gu N p a z T t i)" by (intro sum_nonneg gu_nonneg nn)
  show "0 \<le> mf (full_em_A Am N T (xi_u N p a z T) (ga_u N p a z T)) i j"
    unfolding full_em_A_view[OF sh i j L] using 1 2 mf_nonneg[OF nA] by simp
qed

lemma full_em_B_nonneg:
  assumes sh: "shaped Bm N m" and nB: "nonneg_mat Bm" and L: "lik N p a z T \<noteq> 0"
    and len: "length os = T" and sym: "\<forall>ob \<in> set os. 0 \<le> ob"
    and nn: "\<And>i. 0 \<le> p i" "\<And>i j. 0 \<le> a i j" "\<And>t i. 0 \<le> z t i"
  shows "nonneg_mat (full_em_B Bm N m T (spec_psi m os (ga_u N p a z T)) (ga_u N p a z T))"
proof (rule nonneg_matI[OF full_em_B_shaped[OF sh]])
  fix i k assume i: "i < N" and k: "k < m"
  have g: "0 \<le> gu N p a z T t i" for t by (intro gu_nonneg nn)
  have 1: "0 \<le> (\<Sum>t<T. if nat (os ! t) = k then gu N p a z T t i else 0)"
    by (intro sum_nonneg) (simp add: g)
  have 2: "0 \<le> (\<Sum>t<T. gu N p a z T t i)" by (intro sum_nonneg g)
  show "0 \<le> mf (full_em_B Bm N m T (spec_psi m os (ga_u N p a z T)) (ga_u N p a z T)) i k"
    unfolding full_em_B_view[OF sh i k L len sym] using 1 2 mf_nonneg[OF nB] by simp
qed

lemma ga_u_head:
  assumes "0 < T"
  shows "(case ga_u N p a z T of [] \<Rightarrow> Pim | g0 # _ \<Rightarrow> g0)
       = map (\<lambda>i. gu N p a z T 0 i / lik N p a z T) [0..<N]"
proof -
  have "[0..<T] = 0 # [Suc 0..<T]" using assms by (simp add: upt_conv_Cons)
  then show ?thesis unfolding ga_u_def by simp
qed

lemma valid_modelD:
  assumes "valid_model Am Bm Pim"
  shows "shaped Am (length Pim) (length Pim)" "shaped Bm (length Pim) (ncols Bm)"
    "nonneg_mat Am" "nonneg_mat Bm" "\<forall>i<length Pim. 0 \<le> Pim ! i"
    "\<forall>i<length Pim. sum_list (Am ! i) = 1" "\<forall>i<length Pim. sum_list (Bm ! i) = 1"
    "sum_list Pim = 1" "0 < length Pim"
proof -
  from assms have lA: "length Am = length Pim" and lB: "length Bm = length Pim"
    and rA: "\<forall>r \<in> set Am. length r = length Pim \<and> sum_list r = 1 \<and> (\<forall>v \<in> set r. 0 \<le> v)"
    and rB: "\<forall>r \<in> set Bm. length r = ncols Bm \<and> sum_list r = 1 \<and> (\<forall>v \<in> set r. 0 \<le> v)"
    and sP: "sum_list Pim = 1" and nP: "\<forall>v \<in> set Pim. 0 \<le> v"
    unfolding valid_model_def by blast+
  have A: "\<And>i. i < length Pim \<Longrightarrow> Am ! i \<in> set Am" using lA by simp
  have B: "\<And>i. i < length Pim \<Longrightarrow> Bm ! i \<in> set Bm" using lB by simp
  show "shaped Am (length Pim) (length Pim)" using lA rA A by (simp add: shaped_def)
  show "shaped Bm (length Pim) (ncols Bm)" using lB rB B by (simp add: shaped_def)
  show "nonneg_mat Am" unfolding nonneg_mat_def using rA lA by (metis nth_mem)
  show "nonneg_mat Bm" unfolding nonneg_mat_def using rB lB by (metis nth_mem)
  show "\<forall>i<length Pim. 0 \<le> Pim ! i" using nP by simp
  show "\<forall>i<length Pim. sum_list (Am ! i) = 1" using rA A by simp
  show "\<forall>i<length Pim. sum_list (Bm ! i) = 1" using rB B by simp
  show "sum_list Pim = 1" by (rule sP)
  show "0 < length Pim" using sP by (cases Pim) simp_all
qed

lemma valid_modelI:
  assumes "length Pim = N" "shaped Am N N" "shaped Bm N m" "0 < N"
    and "nonneg_mat Am" "nonneg_mat Bm" "\<forall>i<N. 0 \<le> Pim ! i"
    and "\<forall>i<N. sum_list (Am ! i) = 1" "\<forall>i<N. sum_list (Bm ! i) = 1" "sum_list Pim = 1"
  shows "valid_model Am Bm Pim"
proof -
  have nc: "ncols Bm = m" by (rule ncols_shaped[OF assms(3,4)])
  have lA: "length Am = N" and lB: "length Bm = N" using assms(2,3) by (simp_all add: shaped_def)
  have A: "length r = length Pim \<and> sum_list r = 1 \<and> (\<forall>v \<in> set r. 0 \<le> v)" if "r \<in> set Am" for r
  proof -
    from that obtain i where i: "i < N" and r: "r = Am ! i" using lA by (auto simp: in_set_conv_nth)
    have "\<forall>v \<in> set r. 0 \<le> v"
      using assms(5) i lA unfolding r nonneg_mat_def by (auto simp: in_set_conv_nth)
    then show ?thesis using assms(1,2,8) i unfolding r by (simp add: shaped_def)
  qed
  have B: "length r = ncols Bm \<and> sum_list r = 1 \<and> (\<forall>v \<in> set r. 0 \<le> v)" if "r \<in> set Bm" for r
  proof -
    from that obtain i where i: "i < N" and r: "r = Bm ! i" using lB by (auto simp: in_set_conv_nth)
    have "\<forall>v \<in> set r. 0 \<le> v"
      using assms(6) i lB unfolding r nonneg_mat_def by (auto simp: in_set_conv_nth)
    then show ?thesis using assms(3,9) i nc unfolding r by (simp add: shaped_def)
  qed
  have P: "\<forall>v \<in> set Pim. 0 \<le> v" using assms(1,7) by (auto simp: in_set_conv_nth)
  show ?thesis unfolding valid_model_def using lA lB assms(1,10) A B P by simp
qed

lemma xu_sum_tj:
  "(\<Sum>j<N. \<Sum>t<T - 1. xu N p a z T t i j) = (\<Sum>t<T - 1. gu N p a z T t i)"
proof -
  have "(\<Sum>j<N. \<Sum>t<T - 1. xu N p a z T t i j) = (\<Sum>t<T - 1. \<Sum>j<N. xu N p a z T t i j)"
    by (rule sum.swap)
  also have "\<dots> = (\<Sum>t<T - 1. gu N p a z T t i)"
    by (intro sum.cong refl xu_sum_j) simp
  finally show ?thesis .
qed

lemma full_em_A_row_sum:
  assumes sh: "shaped Am N N" and i: "i < N" and L: "lik N p a z T \<noteq> 0"
    and one: "sum_list (Am ! i) = 1"
  shows "sum_list (full_em_A Am N T (xi_u N p a z T) (ga_u N p a z T) ! i) = 1"
proof -
  let ?A' = "full_em_A Am N T (xi_u N p a z T) (ga_u N p a z T)"
  let ?G = "\<Sum>t<T - 1. gu N p a z T t i"
  have "sum_list (?A' ! i) = (\<Sum>j<N. mf ?A' i j)"
    by (rule mf_row_sum[OF full_em_A_shaped[OF sh] i, symmetric])
  also have "\<dots> = (\<Sum>j<N. if ?G = 0 then mf Am i j else (\<Sum>t<T - 1. xu N p a z T t i j) / ?G)"
    by (intro sum.cong refl) (simp only: full_em_A_view[OF sh i _ L] lessThan_iff)
  also have "\<dots> = 1"
  proof (cases "?G = 0")
    case True
    then show ?thesis using mf_row_sum[OF sh i] one by simp
  next
    case False
    have "(\<Sum>j<N. (\<Sum>t<T - 1. xu N p a z T t i j) / ?G) = (\<Sum>j<N. \<Sum>t<T - 1. xu N p a z T t i j) / ?G"
      by (simp only: sum_divide_distrib)
    also have "\<dots> = 1" unfolding xu_sum_tj using False by simp
    finally show ?thesis using False by simp
  qed
  finally show ?thesis .
qed

lemma psi_sum_k:
  fixes T m :: nat and ob :: "nat \<Rightarrow> nat"
  assumes "\<And>t. t < T \<Longrightarrow> ob t < m"
  shows "(\<Sum>k<m. \<Sum>t<T. if ob t = k then g t else (0::real)) = (\<Sum>t<T. g t)"
proof -
  have "(\<Sum>k<m. \<Sum>t<T. if ob t = k then g t else 0) = (\<Sum>t<T. \<Sum>k<m. if ob t = k then g t else 0)"
    by (rule sum.swap)
  also have "\<dots> = (\<Sum>t<T. g t)"
  proof (intro sum.cong refl)
    fix t assume "t \<in> {..<T}"
    then have "ob t \<in> {..<m}" using assms by simp
    then show "(\<Sum>k<m. if ob t = k then g t else 0) = g t" by simp
  qed
  finally show ?thesis .
qed

lemma full_em_B_row_sum:
  assumes sh: "shaped Bm N m" and i: "i < N" and L: "lik N p a z T \<noteq> 0"
    and len: "length os = T" and sym: "\<forall>ob \<in> set os. 0 \<le> ob \<and> ob < int m"
    and one: "sum_list (Bm ! i) = 1"
  shows "sum_list (full_em_B Bm N m T (spec_psi m os (ga_u N p a z T)) (ga_u N p a z T) ! i) = 1"
proof -
  let ?B' = "full_em_B Bm N m T (spec_psi m os (ga_u N p a z T)) (ga_u N p a z T)"
  let ?S = "\<Sum>t<T. gu N p a z T t i"
  have sym0: "\<forall>ob \<in> set os. 0 \<le> ob" using sym by simp
  have ob: "\<And>t. t < T \<Longrightarrow> nat (os ! t) < m"
  proof -
    fix t assume "t < T"
    then have "os ! t \<in> set os" using len by simp
    then show "nat (os ! t) < m" using sym by auto
  qed
  have "sum_list (?B' ! i) = (\<Sum>k<m. mf ?B' i k)"
    by (rule mf_row_sum[OF full_em_B_shaped[OF sh] i, symmetric])
  also have "\<dots> = (\<Sum>k<m. if ?S = 0 then mf Bm i k
        else (\<Sum>t<T. if nat (os ! t) = k then gu N p a z T t i else 0) / ?S)"
    by (intro sum.cong refl) (simp only: full_em_B_view[OF sh i _ L len sym0] lessThan_iff)
  also have "\<dots> = 1"
  proof (cases "?S = 0")
    case True
    then show ?thesis using mf_row_sum[OF sh i] one by simp
  next
    case False
    have "(\<Sum>k<m. (\<Sum>t<T. if nat (os ! t) = k then gu N p a z T t i else 0) / ?S)
        = (\<Sum>k<m. \<Sum>t<T. if nat (os ! t) = k then gu N p a z T t i else 0) / ?S"
      by (simp only: sum_divide_distrib)
    also have "\<dots> = 1"
      using psi_sum_k[of T "\<lambda>t. nat (os ! t)" m "\<lambda>t. gu N p a z T t i", OF ob] False
      by simp
    finally show ?thesis using False by simp
  qed
  finally show ?thesis .
qed

lemma new_Pi_sum:
  assumes "0 < T" "lik N p a z T \<noteq> 0"
  shows "sum_list (map (\<lambda>i. gu N p a z T 0 i / lik N p a z T) [0..<N]) = 1"
proof -
  have "sum_list (map (\<lambda>i. gu N p a z T 0 i / lik N p a z T) [0..<N])
      = (\<Sum>i<N. gu N p a z T 0 i) / lik N p a z T"
    by (simp add: sum_list_upt0 sum_divide_distrib)
  then show ?thesis using assms by (simp add: gu_sum)
qed

section \<open>Full reestimation and the likelihood\<close>

text \<open>
  The step of the specification on lists, put together: after a successful forward pass the
  step succeeds, the new model is valid, the forward pass succeeds on it, and \<open>pobs\<close> has not
  decreased.
\<close>

lemma emission_cache_Inr:
  assumes "emission_cache Bm os = Inr Zm"
  shows "(\<forall>ob \<in> set os. 0 \<le> ob \<and> ob < int (ncols Bm))"
    and "Zm = map (\<lambda>ob. map (\<lambda>row. row ! nat ob) Bm) os"
  using assms by (auto simp: emission_cache_def split: if_splits)

lemma spec_pobs_Inr:
  assumes "spec_pobs Am Bm Pim os = Inr pv"
  obtains Zm al cs where "emission_cache Bm os = Inr Zm" "forward_pass Am Pim Zm = Inr (al, cs, pv)"
  using assms unfolding spec_pobs_def by (auto split: sum.splits)

lemma spec_pobs_empty: "spec_pobs Am Bm Pim [] = Inr 1"
  by (simp add: spec_pobs_def emission_cache_def forward_pass_def)

lemma full_em_step_empty:
  assumes "valid_model Am Bm Pim"
  shows "full_em_step Am Bm Pim [] = Inr (Am, Bm, Pim)"
proof -
  have A: "length Am = length Pim" and B: "length Bm = length Pim"
    using valid_modelD(1,2)[OF assms] by (simp_all add: shaped_def)
  have "map (\<lambda>i. Am ! i) [0..<length Pim] = Am" "map (\<lambda>i. Bm ! i) [0..<length Pim] = Bm"
    using map_nth[of Am] map_nth[of Bm] A B by simp_all
  then show ?thesis
    by (simp add: full_em_step_def emission_cache_def forward_pass_def backward_pass_def
        spec_gamma_def spec_xi_def spec_psi_def full_em_A_def full_em_B_def Let_def)
qed

lemma full_em_step_monotone_pos:
  assumes vm: "valid_model Am Bm Pim" and ok: "spec_pobs Am Bm Pim os = Inr pv" and T0: "0 < length os"
  shows "\<exists>A' B' Pi' pv'. full_em_step Am Bm Pim os = Inr (A', B', Pi') \<and>
           valid_model A' B' Pi' \<and> spec_pobs A' B' Pi' os = Inr pv' \<and> pv \<le> pv'"
proof -
  define N where "N = length Pim"
  define m where "m = ncols Bm"
  define T where "T = length os"
  define p where "p = vf Pim"
  define a where "a = mf Am"
  define b where "b = mf Bm"
  define ob where "ob = (\<lambda>t. nat (os ! t))"
  define z where "z = (\<lambda>t i. b i (ob t))"
  let ?L = "lik N p a z T"
  note vd = valid_modelD[OF vm, folded N_def m_def]
  have TT: "0 < T" using T0 by (simp add: T_def)
  obtain Zm al cs where ec: "emission_cache Bm os = Inr Zm"
    and fp: "forward_pass Am Pim Zm = Inr (al, cs, pv)"
    using ok by (rule spec_pobs_Inr)
  have sym: "\<forall>ob \<in> set os. 0 \<le> ob \<and> ob < int m"
    and Zm: "Zm = map (\<lambda>ob. map (\<lambda>row. row ! nat ob) Bm) os"
    using emission_cache_Inr[OF ec] by (simp_all add: m_def)
  have sym0: "\<forall>ob \<in> set os. 0 \<le> ob" using sym by simp
  have lenZ: "length Zm = T" by (simp add: Zm T_def)
  have ag: "agrees Am Pim Zm T p a z"
    unfolding Zm T_def p_def a_def z_def b_def ob_def
    by (rule agrees_views[OF vd(1)[unfolded N_def] vd(2)[unfolded N_def] sym])
  have nz: "\<forall>t<T. su N p a z t \<noteq> 0"
    by (rule forward_pass_nonzero[OF ag N_def lenZ fp])
  have fb: "fb_ok Am Pim Zm T N p a z"
    unfolding fb_ok_def using ag lenZ TT nz N_def by simp
  have fpc: "forward_pass Am Pim Zm = Inr (al_u N p a z T, map (cu N p a z) [0..<T], ?L)"
    by (rule forward_pass_ok[OF fb])
  have pv: "pv = ?L" using fp fpc by simp
  have np: "\<And>i. 0 \<le> p i" unfolding p_def using vd(5) by (intro vf_nonneg) (simp add: N_def)
  have na: "\<And>i j. 0 \<le> a i j" unfolding a_def by (intro mf_nonneg vd(3))
  have nb: "\<And>i k. 0 \<le> b i k" unfolding b_def by (intro mf_nonneg vd(4))
  have nzz: "\<And>t i. 0 \<le> z t i" unfolding z_def by (rule nb)
  have Lnz: "?L \<noteq> 0" using nz TT by (simp add: lik_su)
  have "0 \<le> ?L" unfolding lik_def by (intro sum_nonneg au_nonneg np na nzz)
  with Lnz have Lpos: "0 < ?L" by simp
  define A' where "A' = full_em_A Am N T (xi_u N p a z T) (ga_u N p a z T)"
  define B' where "B' = full_em_B Bm N m T (spec_psi m os (ga_u N p a z T)) (ga_u N p a z T)"
  define Pi' where "Pi' = map (\<lambda>i. gu N p a z T 0 i / ?L) [0..<N]"
  have step: "full_em_step Am Bm Pim os = Inr (A', B', Pi')"
    unfolding full_em_step_def ec sum.case fpc prod.case Let_def
    unfolding N_def[symmetric] m_def[symmetric] T_def[symmetric]
      backward_pass_ok[OF fb] spec_gamma_ok[OF fb] spec_xi_ok[OF fb] ga_u_head[OF TT]
    by (simp add: A'_def B'_def Pi'_def)
  define p' where "p' = vf Pi'"
  define a' where "a' = mf A'"
  define b' where "b' = mf B'"
  define z' where "z' = (\<lambda>t i. b' i (ob t))"
  let ?L' = "lik N p' a' z' T"
  have shA': "shaped A' N N" unfolding A'_def by (rule full_em_A_shaped[OF vd(1)])
  have shB': "shaped B' N m" unfolding B'_def by (rule full_em_B_shaped[OF vd(2)])
  have lenP': "length Pi' = N" by (simp add: Pi'_def)
  have nP': "\<forall>i<N. 0 \<le> Pi' ! i"
  proof (intro allI impI)
    fix i assume i: "i < N"
    have "0 \<le> gu N p a z T 0 i" by (intro gu_nonneg np na nzz)
    then show "0 \<le> Pi' ! i" using i Lpos by (simp add: Pi'_def)
  qed
  have nA': "nonneg_mat A'"
    unfolding A'_def by (intro full_em_A_nonneg vd(1) vd(3) Lnz np na nzz)
  have nB': "nonneg_mat B'"
    unfolding B'_def
    by (intro full_em_B_nonneg[where os = os] vd(2) vd(4) Lnz np na nzz sym0) (simp add: T_def)
  have np': "\<And>i. 0 \<le> p' i"
    unfolding p'_def using nP' by (intro vf_nonneg) (simp add: lenP')
  have na': "\<And>i j. 0 \<le> a' i j" unfolding a'_def by (intro mf_nonneg nA')
  have nb': "\<And>i k. 0 \<le> b' i k" unfolding b'_def by (intro mf_nonneg nB')
  have nzz': "\<And>t i. 0 \<le> z' t i" unfolding z'_def by (rule nb')
  have sp: "(\<Sum>i<N. p i) = 1" unfolding p_def using vf_sum[of Pim N] vd(8) by (simp add: N_def)
  have sa: "\<And>i. i < N \<Longrightarrow> (\<Sum>j<N. a i j) = 1"
    unfolding a_def using mf_row_sum[OF vd(1)] vd(6) by simp
  have sb: "\<And>i. i < N \<Longrightarrow> (\<Sum>k<m. b i k) = 1"
    unfolding b_def using mf_row_sum[OF vd(2)] vd(7) by simp
  have obs: "\<And>t. t < T \<Longrightarrow> ob t < m"
  proof -
    fix t assume "t < T"
    then have "os ! t \<in> set os" by (simp add: T_def)
    then show "ob t < m" using sym by (auto simp: ob_def)
  qed
  have P: "\<And>i. i < N \<Longrightarrow> p' i = gu N p a (\<lambda>t i. b i (ob t)) T 0 i / lik N p a (\<lambda>t i. b i (ob t)) T"
    unfolding p'_def z_def[symmetric] by (simp add: vf_def Pi'_def)
  have A: "\<And>i j. i < N \<Longrightarrow> j < N \<Longrightarrow> (\<Sum>t<T - 1. gu N p a (\<lambda>t i. b i (ob t)) T t i) \<noteq> 0 \<Longrightarrow>
          a' i j = (\<Sum>t<T - 1. xu N p a (\<lambda>t i. b i (ob t)) T t i j) / (\<Sum>t<T - 1. gu N p a (\<lambda>t i. b i (ob t)) T t i)"
    unfolding a'_def A'_def z_def[symmetric] by (simp only: full_em_A_view[OF vd(1) _ _ Lnz] if_False)
  have B: "\<And>i k. i < N \<Longrightarrow> k < m \<Longrightarrow> (\<Sum>t<T. gu N p a (\<lambda>t i. b i (ob t)) T t i) \<noteq> 0 \<Longrightarrow>
          b' i k = (\<Sum>t<T. if ob t = k then gu N p a (\<lambda>t i. b i (ob t)) T t i else 0) / (\<Sum>t<T. gu N p a (\<lambda>t i. b i (ob t)) T t i)"
  proof -
    fix i k assume i: "i < N" and k: "k < m"
      and g: "(\<Sum>t<T. gu N p a (\<lambda>t i. b i (ob t)) T t i) \<noteq> 0"
    from g have g': "(\<Sum>t<T. gu N p a z T t i) \<noteq> 0" by (simp add: z_def)
    have "b' i k = (\<Sum>t<T. if nat (os ! t) = k then gu N p a z T t i else 0) / (\<Sum>t<T. gu N p a z T t i)"
      unfolding b'_def B'_def using g'
      by (simp only: full_em_B_view[OF vd(2) i k Lnz T_def[symmetric] sym0] if_False)
    then show "b' i k = (\<Sum>t<T. if ob t = k then gu N p a (\<lambda>t i. b i (ob t)) T t i else 0) / (\<Sum>t<T. gu N p a (\<lambda>t i. b i (ob t)) T t i)"
      unfolding z_def ob_def .
  qed
  have mono: "0 < lik N p' a' (\<lambda>t i. b' i (ob t)) T \<and>
              lik N p a (\<lambda>t i. b i (ob t)) T \<le> lik N p' a' (\<lambda>t i. b' i (ob t)) T"
    by (rule em_monotone[where M = m, OF np na nb np' na' nb' sp sa sb obs TT
          Lpos[unfolded z_def] P A B])
  then have L'pos: "0 < ?L'" and LL': "?L \<le> ?L'" by (simp_all add: z_def z'_def)
  have Npos: "0 < N" by (rule vd(9))
  have ncB': "ncols B' = m" by (rule ncols_shaped[OF shB' Npos])
  define Zm' where "Zm' = map (\<lambda>ob. map (\<lambda>row. row ! nat ob) B') os"
  have ec': "emission_cache B' os = Inr Zm'"
    using sym by (simp add: emission_cache_def ncB' Zm'_def)
  have ag': "agrees A' Pi' Zm' T p' a' z'"
    unfolding Zm'_def T_def p'_def a'_def z'_def b'_def ob_def
    by (rule agrees_views[OF shA'[folded lenP'] shB'[folded lenP'] sym])
  have nz': "\<forall>t<T. su N p' a' z' t \<noteq> 0"
    by (rule su_all_nonzero[OF L'pos TT np' na' nzz'])
  have fb': "fb_ok A' Pi' Zm' T N p' a' z'"
    unfolding fb_ok_def using ag' TT nz' lenP' by (simp add: Zm'_def T_def)
  have vm': "valid_model A' B' Pi'"
  proof (rule valid_modelI[where N = N and m = m])
    show "length Pi' = N" by (rule lenP')
    show "shaped A' N N" by (rule shA')
    show "shaped B' N m" by (rule shB')
    show "0 < N" by (rule Npos)
    show "nonneg_mat A'" by (rule nA')
    show "nonneg_mat B'" by (rule nB')
    show "\<forall>i<N. 0 \<le> Pi' ! i" by (rule nP')
    show "\<forall>i<N. sum_list (A' ! i) = 1"
      unfolding A'_def using full_em_A_row_sum[OF vd(1) _ Lnz] vd(6) by simp
    show "\<forall>i<N. sum_list (B' ! i) = 1"
      unfolding B'_def using full_em_B_row_sum[OF vd(2) _ Lnz T_def[symmetric] sym] vd(7) by simp
    show "sum_list Pi' = 1" unfolding Pi'_def by (rule new_Pi_sum[OF TT Lnz])
  qed
  have "spec_pobs A' B' Pi' os = Inr ?L'"
    unfolding spec_pobs_def ec' sum.case forward_pass_ok[OF fb'] by simp
  with step vm' LL' pv show ?thesis by blast
qed

text \<open>
  Claim C2, monotonic likelihood improvement. For every valid model (row-stochastic \<open>A\<close> and
  \<open>B\<close>, a probability vector \<open>Pi\<close>, matching dimensions) and every observation sequence
  on which \<open>pobs\<close> is computed (all symbols in range and no degenerate row in the forward
  pass), one full-EM reestimation step succeeds, its result is again a valid model, \<open>pobs\<close> is
  computed for the new parameters on the same sequence, and the new value is greater than or
  equal to the old one. The full-EM step and the passes are those of the specification, since
  the base class that implements them is not among the sources.
\<close>

theorem full_em_step_never_lowers_pobs:
  assumes "valid_model Am Bm Pim" and "spec_pobs Am Bm Pim os = Inr pv"
  shows "\<exists>A' B' Pi' pv'. full_em_step Am Bm Pim os = Inr (A', B', Pi') \<and>
           valid_model A' B' Pi' \<and> spec_pobs A' B' Pi' os = Inr pv' \<and> pv \<le> pv'"
proof (cases os)
  case Nil
  have "pv = 1" using assms(2) unfolding Nil spec_pobs_empty by simp
  then show ?thesis
    unfolding Nil using full_em_step_empty[OF assms(1)] assms(1) spec_pobs_empty by auto
next
  case (Cons ob rest)
  then have "0 < length os" by simp
  from full_em_step_monotone_pos[OF assms this] show ?thesis .
qed

lemmas pass_eval = valid_model_def ncols_def spec_pobs_def full_em_step_def emission_cache_def
  forward_pass_def backward_pass_def normalise_def spec_gamma_def spec_xi_def spec_psi_def
  full_em_A_def full_em_B_def Let_def

text \<open>
  The toy model on the sequence \<open>[0, 1]\<close>: \<open>pobs\<close> is \<open>3/16\<close> before the step and \<open>9/16\<close> after it.
\<close>

theorem full_em_step_never_lowers_pobs_witness:
  "valid_model [[1/2, 1/2], [1/2, 1/2]] [[1, 0], [1/2, 1/2]] [1/2, 1/2] \<and>
   spec_pobs [[1/2, 1/2], [1/2, 1/2]] [[1, 0], [1/2, 1/2]] [1/2, 1/2] [0, 1] = Inr (3/16) \<and>
   (\<exists>A' B' Pi' pv'.
      full_em_step [[1/2, 1/2], [1/2, 1/2]] [[1, 0], [1/2, 1/2]] [1/2, 1/2] [0, 1] = Inr (A', B', Pi') \<and>
      valid_model A' B' Pi' \<and> spec_pobs A' B' Pi' [0, 1] = Inr pv' \<and> 3/16 \<le> pv') \<and>
   full_em_step [[1/2, 1/2], [1/2, 1/2]] [[1, 0], [1/2, 1/2]] [1/2, 1/2] [0, 1]
     = Inr ([[0, 1], [0, 1]], [[1, 0], [1/4, 3/4]], [2/3, 1/3]) \<and>
   spec_pobs [[0, 1], [0, 1]] [[1, 0], [1/4, 3/4]] [2/3, 1/3] [0, 1] = Inr (9/16)"
proof -
  have v: "valid_model [[1/2, 1/2], [1/2, 1/2]] [[1, 0], [1/2, 1/2]] [1/2, 1/2]"
    by (simp add: valid_model_def ncols_def)
  have p: "spec_pobs [[1/2, 1/2], [1/2, 1/2]] [[1, 0], [1/2, 1/2]] [1/2, 1/2] [0, 1] = Inr (3/16)"
    by (simp add: pass_eval upt_rec eval_nat_numeral)
  have s: "full_em_step [[1/2, 1/2], [1/2, 1/2]] [[1, 0], [1/2, 1/2]] [1/2, 1/2] [0, 1]
     = Inr ([[0, 1], [0, 1]], [[1, 0], [1/4, 3/4]], [2/3, 1/3])"
    by (simp add: pass_eval upt_rec eval_nat_numeral)
  have q: "spec_pobs [[0, 1], [0, 1]] [[1, 0], [1/4, 3/4]] [2/3, 1/3] [0, 1] = Inr (9/16)"
    by (simp add: pass_eval upt_rec eval_nat_numeral)
  from full_em_step_never_lowers_pobs[OF v p] v p s q show ?thesis by blast
qed

section \<open>The mixing rate\<close>














section \<open>Where the scaled example comes from\<close>

text \<open>
  The statistics of \<open>toy_scaled\<close> are what the passes of the specification compute for the toy
  model and the sequence \<open>[0, 1]\<close>.
\<close>

lemma toy_scaled_from_passes:
  "emission_cache [[1, 0], [1/2, 1/2]] [0, 1] = Inr [[1, 1/2], [0, 1/2]] \<and>
   forward_pass [[1/2, 1/2], [1/2, 1/2]] [1/2, 1/2] [[1, 1/2], [0, 1/2]]
     = Inr ([[2/3, 1/3], [0, 1]], [3/4, 1/4], 3/16) \<and>
   backward_pass [[1/2, 1/2], [1/2, 1/2]] 2 [[1, 1/2], [0, 1/2]] [3/4, 1/4] = [[1, 1], [1, 1]] \<and>
   Z toy_scaled = map (map Fin) [[1, 1/2], [0, 1/2]] \<and>
   alpha toy_scaled = map (map Fin) [[2/3, 1/3], [0, 1]] \<and>
   beta toy_scaled = map (map Fin) [[1, 1], [1, 1]] \<and>
   pobs toy_scaled = Fin (3/16)"
  by (simp add: pass_eval toy_defs upt_rec eval_nat_numeral)

end
